theory Spec2Isabelle
  imports Main
begin

section \<open>Python strings\<close>

text \<open>
  A Python \<open>str\<close> is modelled as a \<open>string\<close>: one \<open>char\<close> per code point, for
  the code points below 256. Indices, sizes and overlaps are Python integers (\<open>int\<close>).
\<close>

text \<open>\<open>str.isspace\<close> on one code point below 256.\<close>

definition isspace :: "char \<Rightarrow> bool" where
  "isspace c =
     (let n = (of_char c :: nat)
      in (9 \<le> n \<and> n \<le> 13) \<or> (28 \<le> n \<and> n \<le> 32) \<or> n = 133 \<or> n = 160)"

text \<open>\<open>s.strip()\<close>: leading and trailing whitespace removed.\<close>

definition strip :: "string \<Rightarrow> string" where
  "strip s = rev (dropWhile isspace (rev (dropWhile isspace s)))"

text \<open>
  How Python turns a slice bound into a position of a sequence of length \<open>n\<close>: a negative
  bound counts from the end, and the result is clamped to \<open>0..n\<close>.
\<close>

definition adjust_index :: "nat \<Rightarrow> int \<Rightarrow> nat" where
  "adjust_index n i = (if i < 0 then nat (max 0 (int n + i)) else min (nat i) n)"

text \<open>\<open>text[start:end]\<close>.\<close>

definition slice :: "'a list \<Rightarrow> int \<Rightarrow> int \<Rightarrow> 'a list" where
  "slice text start end =
     (let lo = adjust_index (length text) start;
          hi = adjust_index (length text) end
      in take (hi - lo) (drop lo text))"

text \<open>
  The highest position \<open>i\<close> with \<open>lo \<le> i < hi\<close> and \<open>text[i] = c\<close>, or \<open>-1\<close>; the
  second argument counts down from \<open>hi\<close>.
\<close>

fun rscan :: "'a list \<Rightarrow> 'a \<Rightarrow> nat \<Rightarrow> nat \<Rightarrow> int" where
  "rscan text c lo 0 = - 1"
| "rscan text c lo (Suc i) =
     (if Suc i \<le> lo then - 1
      else if text ! i = c then int i
      else rscan text c lo i)"

text \<open>\<open>text.rfind(c, start, end)\<close> for a one-character \<open>c\<close>.\<close>

definition rfind :: "'a list \<Rightarrow> 'a \<Rightarrow> int \<Rightarrow> int \<Rightarrow> int" where
  "rfind text c start end =
     rscan text c (adjust_index (length text) start) (adjust_index (length text) end)"

section \<open>Chunker (\<open>src/chunking.py\<close>)\<close>

text \<open>
  The \<open>while\<close> loop of \<open>chunk_text\<close>, on the loop variables \<open>start\<close> and \<open>chunks\<close>.
  The loop has no bound in the source, so the model is a partial function: \<open>None\<close> is a
  run that never leaves the loop.
\<close>

partial_function (option) chunk_loop ::
  "string \<Rightarrow> int \<Rightarrow> int \<Rightarrow> int \<Rightarrow> string list \<Rightarrow> string list option" where
  "chunk_loop text chunk_size overlap start chunks =
     (if start < int (length text) then
        (let end0 = start + chunk_size;
             end = (if end0 < int (length text) then
                      (let last_space = rfind text (CHR '' '') start end0
                       in if last_space > start then last_space else end0)
                    else end0);
             chunk = strip (slice text start end);
             chunks' = (if chunk \<noteq> [] then chunks @ [chunk] else chunks);
             start' = end - overlap
         in if start' \<ge> int (length text) then Some chunks'
            else chunk_loop text chunk_size overlap start' chunks')
      else Some chunks)"

declare chunk_loop.simps [code]

definition chunk_text :: "string \<Rightarrow> int \<Rightarrow> int \<Rightarrow> string list option" where
  "chunk_text text chunk_size overlap =
     (if int (length text) \<le> chunk_size then Some [text]
      else chunk_loop text chunk_size overlap 0 [])"

section \<open>More string operations\<close>

text \<open>\<open>str.lower\<close> on one code point below 256: the ASCII and the Latin-1 capitals.\<close>

definition lower_char :: "char \<Rightarrow> char" where
  "lower_char c =
     (let n = (of_char c :: nat)
      in if (65 \<le> n \<and> n \<le> 90) \<or> (192 \<le> n \<and> n \<le> 222 \<and> n \<noteq> 215)
         then char_of (n + 32) else c)"

definition lower :: "string \<Rightarrow> string" where
  "lower s = map lower_char s"

text \<open>
  \<open>s.replace(old, new)\<close>: every non-overlapping occurrence of \<open>old\<close>, from the left.
  With an empty \<open>old\<close>, Python puts \<open>new\<close> before every character and at the end.
\<close>

function replace :: "string \<Rightarrow> string \<Rightarrow> string \<Rightarrow> string" where
  "replace old new s =
     (if old = [] then new @ concat (map (\<lambda>c. c # new) s)
      else if s = [] then []
      else if take (length old) s = old then new @ replace old new (drop (length old) s)
      else hd s # replace old new (tl s))"
  by pat_completeness auto
termination
  by (relation "measure (\<lambda>(old, new, s). length s)") (auto simp: neq_Nil_conv)

declare replace.simps [simp del]

text \<open>\<open>s.strip(c)\<close> and \<open>s.rstrip(c)\<close> for a one-character \<open>c\<close>.\<close>

definition rstrip_char :: "char \<Rightarrow> string \<Rightarrow> string" where
  "rstrip_char c s = rev (dropWhile (\<lambda>x. x = c) (rev s))"

definition strip_char :: "char \<Rightarrow> string \<Rightarrow> string" where
  "strip_char c s = rstrip_char c (dropWhile (\<lambda>x. x = c) s)"

text \<open>\<open>str(n)\<close> for a natural number, and for any Python integer.\<close>

definition digit_char :: "nat \<Rightarrow> char" where
  "digit_char d = char_of (48 + d)"

fun str_nat :: "nat \<Rightarrow> string" where
  "str_nat n = (if n < 10 then [digit_char n] else str_nat (n div 10) @ [digit_char (n mod 10)])"

declare str_nat.simps [simp del]

definition str_int :: "int \<Rightarrow> string" where
  "str_int i = (if i < 0 then CHR ''-'' # str_nat (nat (- i)) else str_nat (nat i))"

section \<open>Namespace sanitizer (\<open>src/clients.py\<close>)\<close>

text \<open>The characters that the pattern \<open>[^a-z0-9-]\<close> leaves alone.\<close>

definition name_char :: "char \<Rightarrow> bool" where
  "name_char c =
     (let n = (of_char c :: nat)
      in (97 \<le> n \<and> n \<le> 122) \<or> (48 \<le> n \<and> n \<le> 57) \<or> c = CHR ''-'')"

text \<open>\<open>re.sub(r'[^a-z0-9-]', '-', s)\<close>.\<close>

definition sub_invalid :: "string \<Rightarrow> string" where
  "sub_invalid s = map (\<lambda>c. if name_char c then c else CHR ''-'') s"

text \<open>\<open>re.sub(r'-+', '-', s)\<close>: every maximal run of dashes becomes one dash.\<close>

function sub_dashes :: "string \<Rightarrow> string" where
  "sub_dashes [] = []"
| "sub_dashes (c # s) =
     (if c = CHR ''-'' then CHR ''-'' # sub_dashes (dropWhile (\<lambda>x. x = CHR ''-'') s)
      else c # sub_dashes s)"
  by pat_completeness auto
termination
  by (relation "measure length") (auto simp: le_imp_less_Suc length_dropWhile_le)

definition sanitize_azure_name :: "string \<Rightarrow> string" where
  "sanitize_azure_name name =
     (let sanitized = lower name;
          sanitized = replace ''_'' ''-'' sanitized;
          sanitized = replace '' '' ''-'' sanitized;
          sanitized = sub_invalid sanitized;
          sanitized = sub_dashes sanitized;
          sanitized = strip_char (CHR ''-'') sanitized
      in if length sanitized > 128 then rstrip_char (CHR ''-'') (take 128 sanitized)
         else sanitized)"

section \<open>Index document ids\<close>

text \<open>
  The \<open>id\<close> field built in \<open>process_and_upload_org_files\<close>
  (\<open>src/document_processor.py\<close>) for chunk \<open>i\<close> of file \<open>filename\<close>.
\<close>

definition file_document_id :: "string \<Rightarrow> string \<Rightarrow> nat \<Rightarrow> string" where
  "file_document_id org_id filename i =
     sanitize_azure_name org_id @ ''_'' @ replace ''.'' ''_'' filename @ ''_'' @ str_nat i"

text \<open>
  The \<open>id\<close> field built in \<open>process_and_upload_scraped_content\<close>
  (\<open>src/web_scraper.py\<close>) for chunk \<open>i\<close> of the page at \<open>url\<close>.
\<close>

definition web_document_id :: "string \<Rightarrow> string \<Rightarrow> nat \<Rightarrow> string" where
  "web_document_id org_id url i =
     sanitize_azure_name org_id @ ''_web_''
       @ replace ''.'' ''_'' (replace ''/'' ''_'' (replace ''://'' ''_'' url))
       @ ''_'' @ str_nat i"

section \<open>Exceptions, Python values and the outside world\<close>

text \<open>
  A raised exception is a value: its class, as far as the code tells classes apart, and
  its message. \<open>OtherError\<close> is any other subclass of \<open>Exception\<close>.
\<close>

datatype exn =
    ValueError string
  | AttributeError string
  | TypeError string
  | FileNotFoundError string
  | ResourceExistsError string
  | OtherError string

text \<open>\<open>str(e)\<close>.\<close>

fun exn_str :: "exn \<Rightarrow> string" where
  "exn_str (ValueError m) = m"
| "exn_str (AttributeError m) = m"
| "exn_str (TypeError m) = m"
| "exn_str (FileNotFoundError m) = m"
| "exn_str (ResourceExistsError m) = m"
| "exn_str (OtherError m) = m"

datatype pyval =
    PyNone
  | PyStr string
  | PyInt int
  | PyList "pyval list"
  | PyDict "(string \<times> pyval) list"

type_synonym pydict = "(string \<times> pyval) list"

text \<open>A string between single quotes, as in the f-string \<open>'{org_id}'\<close>.\<close>

definition quoted :: "string \<Rightarrow> string" where
  "quoted s = [CHR 0x27] @ s @ [CHR 0x27]"

text \<open>\<open>sep.join(parts)\<close>.\<close>

fun join :: "string \<Rightarrow> string list \<Rightarrow> string" where
  "join sep [] = []"
| "join sep [p] = p"
| "join sep (p # q # ps) = p @ sep @ join sep (q # ps)"

text \<open>A document of the vector index; \<open>'v\<close> is the type of an embedding vector.\<close>

record 'v index_document =
  doc_id :: string
  doc_content :: string
  doc_filepath :: string
  doc_organization_id :: string
  doc_blob_name :: string
  doc_embedding :: 'v

text \<open>
  One result of a search: the selected fields, \<open>None\<close> for a field the result does not
  carry.
\<close>

record search_result =
  res_content :: "string option"
  res_filepath :: "string option"
  res_organization_id :: "string option"
  res_blob_name :: "string option"

datatype upload_method = MergeOrUploadDocuments | UploadDocumentsMergeMode | UploadDocuments

datatype mongo_op = InsertOne | UpdateOne string | InsertMany

text \<open>
  The collaborators, as the code sees them: the configuration constants of
  \<open>src/config.py\<close> and, for every call of an external service, what that call answers
  (\<open>Inl\<close> or \<open>Some\<close>: the exception it raises). \<open>mongo_fault\<close> is the exception,
  if any, that the record store raises on an operation (\<open>UpdateOne st\<close>: the update
  that sets the status \<open>st\<close>); \<open>utc\<close> is the clock, by reading; \<open>object_id\<close> the
  ids the store hands out, as strings.
\<close>

record 'v env =
  search_service_endpoint :: "string option"
  search_admin_key :: "string option"
  openai_endpoint :: "string option"
  openai_api_key :: "string option"
  storage_connection_string :: "string option"
  storage_account_name :: "string option"
  embeddings_create :: "string \<Rightarrow> exn + 'v"
  chat_completions_create :: "string \<Rightarrow> string \<Rightarrow> exn + string"
  index_search :: "string \<Rightarrow> 'v \<Rightarrow> int \<Rightarrow> string \<Rightarrow> exn + search_result list"
  index_upload :: "upload_method \<Rightarrow> string \<Rightarrow> 'v index_document list \<Rightarrow> exn option"
  listdir :: "string \<Rightarrow> exn + string list"
  isdir :: "string \<Rightarrow> bool"
  path_exists :: "string \<Rightarrow> bool"
  create_container :: "string \<Rightarrow> exn option"
  upload_blob :: "string \<Rightarrow> string \<Rightarrow> exn option"
  extract_text_from_file :: "string \<Rightarrow> string"
  utc :: "nat \<Rightarrow> nat"
  isoformat :: "nat \<Rightarrow> string"
  object_id :: "nat \<Rightarrow> string"
  mongo_fault :: "mongo_op \<Rightarrow> exn option"

text \<open>What the code does to the outside, in order.\<close>

datatype 'v call =
    Print string
  | EmbeddingsCreate string
  | ChatCompletionsCreate string string
  | IndexSearch string 'v int string
  | IndexUpload upload_method string "'v index_document list"
  | CreateContainer string
  | UploadBlob string string

text \<open>
  The two collections of the record store (\<open>src/mongodb_client.py\<close>). The title, the
  content and the status of a Knowledge Document come from the input data, where they
  may be Python's \<open>None\<close>.
\<close>

record knowledge_source =
  ks_createdAt :: nat
  ks_updatedAt :: nat
  ks_organizationId :: string
  ks_name :: string
  ks_description :: "string option"
  ks_type :: string
  ks_status :: string
  ks_configuration :: pydict
  ks_lastProcessedAt :: "nat option"
  ks_processStartedAt :: "nat option"
  ks_errorMessage :: "string option"
  ks_retryCount :: int
  ks_documentsProcessed :: int
  ks_documentsFailed :: int

record knowledge_document =
  kd_createdAt :: nat
  kd_updatedAt :: nat
  kd_knowledgeSourceId :: string
  kd_organizationId :: string
  kd_title :: "string option"
  kd_content :: "string option"
  kd_url :: "string option"
  kd_metadata :: pydict
  kd_status :: "string option"
  kd_processedAt :: "nat option"
  kd_errorMessage :: "string option"

text \<open>
  The state the code changes: the calls made so far, the two collections (each document
  under its \<open>_id\<close>), and how many clock readings and object ids have been used.
\<close>

record 'v world =
  calls :: "'v call list"
  knowledge_sources :: "(string \<times> knowledge_source) list"
  knowledge_documents :: "(string \<times> knowledge_document) list"
  ticks :: nat
  oids :: nat

definition emit :: "'v call \<Rightarrow> 'v world \<Rightarrow> 'v world" where
  "emit c w = w\<lparr>calls := calls w @ [c]\<rparr>"

definition print :: "string \<Rightarrow> 'v world \<Rightarrow> 'v world" where
  "print s w = emit (Print s) w"

text \<open>\<open>datetime.utcnow()\<close>.\<close>

definition utcnow :: "'v env \<Rightarrow> 'v world \<Rightarrow> nat \<times> 'v world" where
  "utcnow env w = (utc env (ticks w), w\<lparr>ticks := Suc (ticks w)\<rparr>)"

text \<open>\<open>not x\<close> for a configuration constant: it is \<open>None\<close> or empty.\<close>

definition unset :: "string option \<Rightarrow> bool" where
  "unset x = (x = None \<or> x = Some [])"

section \<open>Clients (\<open>src/clients.py\<close>) and embeddings (\<open>src/embeddings.py\<close>)\<close>

definition get_openai_client :: "'v env \<Rightarrow> exn + unit" where
  "get_openai_client env =
     (if unset (openai_api_key env) \<or> unset (openai_endpoint env)
      then Inl (ValueError ''AZURE_OPENAI_API_KEY and AZURE_OPENAI_ENDPOINT must be set'')
      else Inr ())"

definition get_search_credential :: "'v env \<Rightarrow> exn + unit" where
  "get_search_credential env =
     (if unset (search_admin_key env)
      then Inl (ValueError ''AZURE_SEARCH_ADMIN_KEY must be set'')
      else Inr ())"

text \<open>The search client of an organization, known by the name of its index.\<close>

definition get_search_client :: "'v env \<Rightarrow> string \<Rightarrow> exn + string" where
  "get_search_client env org_id =
     (if unset (search_service_endpoint env)
      then Inl (ValueError ''AZURE_SEARCH_SERVICE_ENDPOINT must be set'')
      else
        (let safe_org_id = sanitize_azure_name org_id;
             org_index_name = safe_org_id
         in case get_search_credential env of
              Inl e \<Rightarrow> Inl e
            | Inr credential \<Rightarrow> Inr org_index_name))"

definition get_blob_service_client :: "'v env \<Rightarrow> exn + unit" where
  "get_blob_service_client env =
     (if \<not> unset (storage_connection_string env) then Inr ()
      else if \<not> unset (storage_account_name env) then Inr ()
      else Inl (ValueError
        ''Either AZURE_STORAGE_CONNECTION_STRING or AZURE_STORAGE_ACCOUNT_NAME must be set''))"

text \<open>The container client of an organization, known by the name of its container.\<close>

definition get_container_client :: "'v env \<Rightarrow> string \<Rightarrow> 'v world \<Rightarrow> (exn + string) \<times> 'v world" where
  "get_container_client env org_id w =
     (case get_blob_service_client env of
        Inl e \<Rightarrow> (Inl e, w)
      | Inr blob_service_client \<Rightarrow>
          (let safe_org_id = sanitize_azure_name org_id;
               container_name = safe_org_id;
               w1 = emit (CreateContainer container_name) w
           in case create_container env container_name of
                None \<Rightarrow>
                  (Inr container_name,
                   print (''Created container '' @ quoted container_name
                          @ '' for organization '' @ quoted org_id) w1)
              | Some (ResourceExistsError m) \<Rightarrow>
                  (Inr container_name,
                   print (''Using existing container '' @ quoted container_name
                          @ '' for organization '' @ quoted org_id) w1)
              | Some e \<Rightarrow> (Inl e, w1)))"

definition generate_embeddings :: "'v env \<Rightarrow> string \<Rightarrow> 'v world \<Rightarrow> (exn + 'v) \<times> 'v world" where
  "generate_embeddings env text w =
     (case get_openai_client env of
        Inl e \<Rightarrow> (Inl e, w)
      | Inr openai_client \<Rightarrow> (embeddings_create env text, emit (EmbeddingsCreate text) w))"

section \<open>Retrieval (\<open>src/search.py\<close>)\<close>

definition perform_vector_search ::
  "'v env \<Rightarrow> string \<Rightarrow> string \<Rightarrow> int \<Rightarrow> 'v world \<Rightarrow> (exn + search_result list) \<times> 'v world" where
  "perform_vector_search env org_id query k w =
     (case get_search_client env org_id of
        Inl e \<Rightarrow> (Inl e, w)
      | Inr org_search_client \<Rightarrow>
          (case generate_embeddings env query w of
             (Inl e, w1) \<Rightarrow> (Inl e, w1)
           | (Inr vector, w1) \<Rightarrow>
               (let filter = ''organization_id eq '' @ quoted org_id;
                    w2 = emit (IndexSearch org_search_client vector k filter) w1
                in case index_search env org_search_client vector k filter of
                     Inl e \<Rightarrow> (Inl e, w2)
                   | Inr results \<Rightarrow> (Inr results, w2))))"

definition get_rag_response ::
  "'v env \<Rightarrow> string \<Rightarrow> string \<Rightarrow> search_result list \<Rightarrow> 'v world \<Rightarrow> (exn + string) \<times> 'v world" where
  "get_rag_response env org_id query search_results w =
     (let system_prompt =
            ''\<newline>    You are an intelligent assistant for organization '' @ quoted org_id @ ''. \<newline>''
            @ ''    You answer user questions based on the context provided from the organization's documents.\<newline>''
            @ ''    If the information is not in the context, say that you cannot answer based on the available documents.\<newline>''
            @ ''    Always be helpful and provide accurate information based on the organization's data.\<newline>    '';
          context_parts =
            map (\<lambda>result.
                   ''From '' @ (case res_filepath result of None \<Rightarrow> ''Unknown file'' | Some f \<Rightarrow> f)
                   @ '':\<newline>''
                   @ (case res_content result of None \<Rightarrow> ''No content available'' | Some c \<Rightarrow> c))
                search_results;
          context = join ''\<newline>\<newline>'' context_parts;
          user_prompt = ''Context from organization '' @ quoted org_id @ '' documents:\<newline>'' @ context
                        @ ''\<newline>\<newline>Question:\<newline>'' @ query
      in case get_openai_client env of
           Inl e \<Rightarrow> (Inl e, w)
         | Inr openai_client \<Rightarrow>
             (chat_completions_create env system_prompt user_prompt,
              emit (ChatCompletionsCreate system_prompt user_prompt) w))"

definition search_documents ::
  "'v env \<Rightarrow> string \<Rightarrow> string \<Rightarrow> int \<Rightarrow> 'v world \<Rightarrow> (exn + string) \<times> 'v world" where
  "search_documents env org_id query k w =
     (case perform_vector_search env org_id query k w of
        (Inl e, w1) \<Rightarrow> (Inl e, w1)
      | (Inr search_results, w1) \<Rightarrow>
          if search_results = []
          then (Inr (''I couldn't find any relevant information in organization ''
                     @ quoted org_id @ '' documents.''), w1)
          else get_rag_response env org_id query search_results w1)"

section \<open>Record store models (\<open>src/mongodb_client.py\<close>)\<close>

text \<open>\<open>KnowledgeSource.create_document\<close>, without extra keyword arguments.\<close>

definition KnowledgeSource_create_document ::
  "'v env \<Rightarrow> string \<Rightarrow> string \<Rightarrow> string option \<Rightarrow> string \<Rightarrow> string \<Rightarrow> pydict option
     \<Rightarrow> 'v world \<Rightarrow> knowledge_source \<times> 'v world" where
  "KnowledgeSource_create_document env organization_id name description source_type status
       configuration w =
     (case utcnow env w of (now, w1) \<Rightarrow>
        (\<lparr>ks_createdAt = now,
          ks_updatedAt = now,
          ks_organizationId = organization_id,
          ks_name = name,
          ks_description = description,
          ks_type = source_type,
          ks_status = status,
          ks_configuration = (case configuration of None \<Rightarrow> [] | Some c \<Rightarrow> c),
          ks_lastProcessedAt = None,
          ks_processStartedAt = None,
          ks_errorMessage = None,
          ks_retryCount = 0,
          ks_documentsProcessed = 0,
          ks_documentsFailed = 0\<rparr>, w1))"

text \<open>
  One element of \<open>documents_data\<close>: a dictionary read with \<open>get\<close>. For the keys
  \<open>title\<close>, \<open>content\<close> and \<open>status\<close>, which \<open>get\<close> reads with a default,
  \<open>None\<close> is a missing key and \<open>Some v\<close> a key with the value \<open>v\<close>, where the
  value \<open>None\<close> is Python's \<open>None\<close>. For \<open>url\<close> and \<open>metadata\<close> a missing key
  and the value \<open>None\<close> come to the same, and both are \<open>None\<close>.
\<close>

record doc_data =
  dd_title :: "string option option"
  dd_content :: "string option option"
  dd_url :: "string option"
  dd_metadata :: "pydict option"
  dd_status :: "string option option"

text \<open>\<open>KnowledgeDocument.create_document\<close>, without extra keyword arguments.\<close>

definition KnowledgeDocument_create_document ::
  "'v env \<Rightarrow> string \<Rightarrow> string \<Rightarrow> string option \<Rightarrow> string option \<Rightarrow> string option
     \<Rightarrow> pydict option \<Rightarrow> string option \<Rightarrow> 'v world \<Rightarrow> knowledge_document \<times> 'v world" where
  "KnowledgeDocument_create_document env knowledge_source_id organization_id title content url
       metadata status w =
     (case utcnow env w of (now, w1) \<Rightarrow>
        (\<lparr>kd_createdAt = now,
          kd_updatedAt = now,
          kd_knowledgeSourceId = knowledge_source_id,
          kd_organizationId = organization_id,
          kd_title = title,
          kd_content = content,
          kd_url = url,
          kd_metadata = (case metadata of None \<Rightarrow> [] | Some m \<Rightarrow> m),
          kd_status = status,
          kd_processedAt = (if status = Some ''COMPLETED'' then Some now else None),
          kd_errorMessage = None\<rparr>, w1))"

text \<open>\<open>KnowledgeDocument.create_batch_documents\<close>: the list comprehension, left to right.\<close>

fun KnowledgeDocument_create_batch_documents ::
  "'v env \<Rightarrow> string \<Rightarrow> string \<Rightarrow> doc_data list \<Rightarrow> 'v world \<Rightarrow> knowledge_document list \<times> 'v world" where
  "KnowledgeDocument_create_batch_documents env knowledge_source_id organization_id [] w = ([], w)"
| "KnowledgeDocument_create_batch_documents env knowledge_source_id organization_id (doc # rest) w =
     (case KnowledgeDocument_create_document env knowledge_source_id organization_id
             (case dd_title doc of None \<Rightarrow> Some ''Untitled Document'' | Some t \<Rightarrow> t)
             (case dd_content doc of None \<Rightarrow> Some '''' | Some c \<Rightarrow> c)
             (dd_url doc)
             (Some (case dd_metadata doc of None \<Rightarrow> [] | Some m \<Rightarrow> m))
             (case dd_status doc of None \<Rightarrow> Some ''COMPLETED'' | Some s \<Rightarrow> s)
             w of
        (d, w1) \<Rightarrow>
          (case KnowledgeDocument_create_batch_documents env knowledge_source_id organization_id rest w1 of
             (ds, w2) \<Rightarrow> (d # ds, w2)))"

section \<open>Record store services (\<open>src/mongodb_service.py\<close>)\<close>

text \<open>\<open>KnowledgeSourceService.create_knowledge_source\<close>.\<close>

definition create_knowledge_source ::
  "'v env \<Rightarrow> string \<Rightarrow> string \<Rightarrow> string option \<Rightarrow> string \<Rightarrow> pydict option
     \<Rightarrow> 'v world \<Rightarrow> (exn + string) \<times> 'v world" where
  "create_knowledge_source env organization_id name description source_type configuration w =
     (case KnowledgeSource_create_document env organization_id name description source_type
             ''PENDING'' configuration w of
        (document, w1) \<Rightarrow>
          (case mongo_fault env InsertOne of
             Some e \<Rightarrow> (Inl e, w1)
           | None \<Rightarrow>
               (let inserted_id = object_id env (oids w1);
                    w2 = w1\<lparr>knowledge_sources := knowledge_sources w1 @ [(inserted_id, document)],
                            oids := Suc (oids w1)\<rparr>
                in (Inr inserted_id, print (''Created knowledge source: '' @ inserted_id) w2))))"

text \<open>
  \<open>update_one(filter, {"$set": updates})\<close> on a collection: the first document that
  matches is changed; the result tells whether a document was modified.
\<close>

fun update_one :: "('k \<times> 'd \<Rightarrow> bool) \<Rightarrow> ('d \<Rightarrow> 'd) \<Rightarrow> ('k \<times> 'd) list \<Rightarrow> ('k \<times> 'd) list \<times> bool" where
  "update_one matches updates [] = ([], False)"
| "update_one matches updates ((k, d) # rest) =
     (if matches (k, d) then ((k, updates d) # rest, updates d \<noteq> d)
      else (case update_one matches updates rest of (rest', m) \<Rightarrow> ((k, d) # rest', m)))"

text \<open>\<open>KnowledgeSourceService.update_knowledge_source_status\<close>.\<close>

definition update_knowledge_source_status ::
  "'v env \<Rightarrow> string \<Rightarrow> string \<Rightarrow> string option \<Rightarrow> string option \<Rightarrow> int option \<Rightarrow> int option
     \<Rightarrow> 'v world \<Rightarrow> (exn + bool) \<times> 'v world" where
  "update_knowledge_source_status env source_id status organization_id error_message
       documents_processed documents_failed w =
     (case utcnow env w of (updated_at, w1) \<Rightarrow>
        (let updates0 = (\<lambda>d. d\<lparr>ks_status := status, ks_updatedAt := updated_at\<rparr>);
             updates1 = (case error_message of
                           None \<Rightarrow> updates0
                         | Some m \<Rightarrow> (\<lambda>d. (updates0 d)\<lparr>ks_errorMessage := Some m\<rparr>));
             updates2 = (case documents_processed of
                           None \<Rightarrow> updates1
                         | Some n \<Rightarrow> (\<lambda>d. (updates1 d)\<lparr>ks_documentsProcessed := n\<rparr>));
             updates3 = (case documents_failed of
                           None \<Rightarrow> updates2
                         | Some n \<Rightarrow> (\<lambda>d. (updates2 d)\<lparr>ks_documentsFailed := n\<rparr>))
         in case (if status = ''PROCESSING'' then
                    (case utcnow env w1 of (t, w2) \<Rightarrow>
                       ((\<lambda>d. (updates3 d)\<lparr>ks_processStartedAt := Some t\<rparr>), w2))
                  else if status = ''COMPLETED'' then
                    (case utcnow env w1 of (t, w2) \<Rightarrow>
                       ((\<lambda>d. (updates3 d)\<lparr>ks_lastProcessedAt := Some t, ks_errorMessage := None\<rparr>), w2))
                  else (updates3, w1)) of
              (updates, w2) \<Rightarrow>
                (let filter_criteria =
                       (\<lambda>(oid, d). oid = source_id \<and>
                          (unset organization_id \<or> Some (ks_organizationId d) = organization_id))
                 in case mongo_fault env (UpdateOne status) of
                      Some e \<Rightarrow> (Inl e, w2)
                    | None \<Rightarrow>
                        (case update_one filter_criteria updates (knowledge_sources w2) of
                           (sources', modified) \<Rightarrow>
                             (Inr modified, w2\<lparr>knowledge_sources := sources'\<rparr>)))))"

text \<open>\<open>KnowledgeDocumentService.create_documents_batch\<close>.\<close>

definition create_documents_batch ::
  "'v env \<Rightarrow> string \<Rightarrow> string \<Rightarrow> doc_data list \<Rightarrow> 'v world \<Rightarrow> (exn + string list) \<times> 'v world" where
  "create_documents_batch env knowledge_source_id organization_id documents_data w =
     (case KnowledgeDocument_create_batch_documents env knowledge_source_id organization_id
             documents_data w of
        (documents, w1) \<Rightarrow>
          (case mongo_fault env InsertMany of
             Some e \<Rightarrow> (Inl e, w1)
           | None \<Rightarrow>
               (let inserted_ids = map (\<lambda>i. object_id env (oids w1 + i)) [0..<length documents]
                in (Inr inserted_ids,
                    w1\<lparr>knowledge_documents := knowledge_documents w1 @ zip inserted_ids documents,
                       oids := oids w1 + length documents\<rparr>))))"

text \<open>
  \<open>KnowledgeService.process_file_batch\<close>. The \<open>try\<close> block is the insertion of the
  documents and the update to \<open>COMPLETED\<close>; its handler updates to \<open>FAILED\<close> and
  raises the exception again.
\<close>

definition process_file_batch ::
  "'v env \<Rightarrow> string \<Rightarrow> string \<Rightarrow> doc_data list \<Rightarrow> string option \<Rightarrow> pydict option
     \<Rightarrow> 'v world \<Rightarrow> (exn + string \<times> string list) \<times> 'v world" where
  "process_file_batch env organization_id source_name file_data description configuration w =
     (case create_knowledge_source env organization_id source_name description ''DOCUMENT''
             configuration w of
        (Inl e, w1) \<Rightarrow> (Inl e, w1)
      | (Inr source_id, w1) \<Rightarrow>
     (case update_knowledge_source_status env source_id ''PROCESSING'' (Some organization_id)
             None None None w1 of
        (Inl e, w2) \<Rightarrow> (Inl e, w2)
      | (Inr _, w2) \<Rightarrow>
     (case (case create_documents_batch env source_id organization_id file_data w2 of
              (Inl e, w3) \<Rightarrow> (Inl e, w3)
            | (Inr document_ids, w3) \<Rightarrow>
                (case update_knowledge_source_status env source_id ''COMPLETED''
                        (Some organization_id) None (Some (int (length document_ids))) (Some 0) w3 of
                   (Inl e, w4) \<Rightarrow> (Inl e, w4)
                 | (Inr _, w4) \<Rightarrow>
                     (Inr (source_id, document_ids),
                      print (''Successfully processed '' @ str_nat (length document_ids)
                             @ '' documents for source: '' @ source_id) w4))) of
        (Inr result, w5) \<Rightarrow> (Inr result, w5)
      | (Inl e, w5) \<Rightarrow>
          (case update_knowledge_source_status env source_id ''FAILED'' (Some organization_id)
                  (Some (exn_str e)) (Some 0) (Some (int (length file_data))) w5 of
             (Inl e', w6) \<Rightarrow> (Inl e', w6)
           | (Inr _, w6) \<Rightarrow> (Inl e, w6)))))"

section \<open>Paths (\<open>os.path\<close>, POSIX)\<close>

definition path_join :: "string \<Rightarrow> string \<Rightarrow> string" where
  "path_join a b =
     (if b \<noteq> [] \<and> hd b = CHR ''/'' then b
      else if a = [] \<or> last a = CHR ''/'' then a @ b
      else a @ ''/'' @ b)"

definition basename :: "string \<Rightarrow> string" where
  "basename p = rev (takeWhile (\<lambda>c. c \<noteq> CHR ''/'') (rev p))"

text \<open>
  \<open>os.path.splitext(p)[1]\<close>: the part of the base name from its last dot on, unless
  only dots stand before that dot.
\<close>

definition splitext_ext :: "string \<Rightarrow> string" where
  "splitext_ext p =
     (let name = basename p;
          ext = rev (takeWhile (\<lambda>c. c \<noteq> CHR ''.'') (rev name));
          stem = rev (drop 1 (dropWhile (\<lambda>c. c \<noteq> CHR ''.'') (rev name)))
      in if CHR ''.'' \<in> set name \<and> list_ex (\<lambda>c. c \<noteq> CHR ''.'') stem
         then CHR ''.'' # ext else [])"

section \<open>Ingestion of a directory (\<open>src/document_processor.py\<close>)\<close>

definition SUPPORTED_EXTENSIONS :: "string list" where
  "SUPPORTED_EXTENSIONS = [''.txt'', ''.pdf'', ''.docx'', ''.csv'', ''.pptx'', ''.xlsx'', ''.xls'']"

definition upload_file_to_org_blob ::
  "'v env \<Rightarrow> string \<Rightarrow> string \<Rightarrow> 'v world \<Rightarrow> (exn + string) \<times> 'v world" where
  "upload_file_to_org_blob env org_id file_path w =
     (if \<not> path_exists env file_path
      then (Inl (FileNotFoundError (''File not found: '' @ file_path)), w)
      else
        (let blob_name = basename file_path
         in case get_container_client env org_id w of
              (Inl e, w1) \<Rightarrow> (Inl e, w1)
            | (Inr container_client, w1) \<Rightarrow>
                (let w2 = emit (UploadBlob container_client blob_name) w1
                 in case upload_blob env container_client blob_name of
                      Some e \<Rightarrow> (Inl e, w2)
                    | None \<Rightarrow>
                        (Inr blob_name,
                         print (''Uploaded '' @ quoted file_path @ '' as '' @ quoted blob_name
                                @ '' to organization '' @ quoted org_id @ '' container'') w2))))"

text \<open>
  The loop over \<open>enumerate(chunks)\<close> (lines 161 to 192): \<open>i\<close> is the ordinal of the
  first chunk of the list, \<open>total_chunks\<close> is \<open>len(chunks)\<close>.
\<close>

fun process_chunks ::
  "'v env \<Rightarrow> string \<Rightarrow> string \<Rightarrow> string \<Rightarrow> string \<Rightarrow> string \<Rightarrow> string \<Rightarrow> nat \<Rightarrow> nat \<Rightarrow> string list
     \<Rightarrow> 'v index_document list \<times> doc_data list \<Rightarrow> 'v world
     \<Rightarrow> (exn + 'v index_document list \<times> doc_data list) \<times> 'v world" where
  "process_chunks env org_id safe_org_id filename filepath blob_name file_extension total_chunks i
       [] acc w = (Inr acc, w)"
| "process_chunks env org_id safe_org_id filename filepath blob_name file_extension total_chunks i
       (chunk # rest) (documents, mongo_documents) w =
     (if strip chunk \<noteq> [] then
        (case generate_embeddings env chunk w of
           (Inl e, w1) \<Rightarrow> (Inl e, w1)
         | (Inr embedding, w1) \<Rightarrow>
             (case utcnow env w1 of (now, w2) \<Rightarrow>
                (let document =
                       \<lparr>doc_id = safe_org_id @ ''_'' @ replace ''.'' ''_'' filename @ ''_'' @ str_nat i,
                        doc_content = chunk,
                        doc_filepath = filename,
                        doc_organization_id = org_id,
                        doc_blob_name = blob_name,
                        doc_embedding = embedding\<rparr>;
                     mongo_doc =
                       \<lparr>dd_title = Some (Some (filename @ '' - Chunk '' @ str_nat (i + 1))),
                        dd_content = Some (Some chunk),
                        dd_url = None,
                        dd_metadata = Some
                          [(''filename'', PyStr filename),
                           (''filepath'', PyStr filepath),
                           (''blob_name'', PyStr blob_name),
                           (''chunk_index'', PyInt (int i)),
                           (''total_chunks'', PyInt (int total_chunks)),
                           (''file_extension'', PyStr file_extension),
                           (''processed_at'', PyStr (isoformat env now)),
                           (''source'', PyStr ''local_file''),
                           (''chunk_size'', PyInt (int (length chunk))),
                           (''organization_id'', PyStr org_id)],
                        dd_status = None\<rparr>
                 in process_chunks env org_id safe_org_id filename filepath blob_name file_extension
                      total_chunks (i + 1) rest
                      (documents @ [document], mongo_documents @ [mongo_doc]) w2)))
      else process_chunks env org_id safe_org_id filename filepath blob_name file_extension
             total_chunks (i + 1) rest (documents, mongo_documents) w)"

text \<open>
  The loop over \<open>os.listdir(directory_path)\<close> (lines 140 to 194), on the variables
  \<open>documents\<close>, \<open>mongo_documents\<close> and \<open>processed_files\<close>. The result is \<open>None\<close>
  when \<open>chunk_text\<close> does not return for a file.
\<close>

fun process_files ::
  "'v env \<Rightarrow> string \<Rightarrow> string \<Rightarrow> int \<Rightarrow> int \<Rightarrow> string list
     \<Rightarrow> 'v index_document list \<times> doc_data list \<times> nat \<Rightarrow> 'v world
     \<Rightarrow> ((exn + 'v index_document list \<times> doc_data list \<times> nat) \<times> 'v world) option" where
  "process_files env org_id directory_path chunk_size overlap [] acc w = Some (Inr acc, w)"
| "process_files env org_id directory_path chunk_size overlap (filename # rest)
       (documents, mongo_documents, processed_files) w =
     (let filepath = path_join directory_path filename;
          file_extension = lower (splitext_ext filename)
      in if isdir env filepath \<or> file_extension \<notin> set SUPPORTED_EXTENSIONS
         then process_files env org_id directory_path chunk_size overlap rest
                (documents, mongo_documents, processed_files) w
         else
           (let w1 = print (''Processing file: '' @ filename @ '' ('' @ file_extension @ '')'') w
            in case upload_file_to_org_blob env org_id filepath w1 of
                 (Inl e, w2) \<Rightarrow> Some (Inl e, w2)
               | (Inr blob_name, w2) \<Rightarrow>
                   (let content = extract_text_from_file env filepath
                    in if strip content = [] then
                         process_files env org_id directory_path chunk_size overlap rest
                           (documents, mongo_documents, processed_files)
                           (print (''Warning: No content extracted from '' @ filename) w2)
                       else
                         (case chunk_text content chunk_size overlap of
                            None \<Rightarrow> None
                          | Some chunks \<Rightarrow>
                              (let w3 = print (''File '' @ quoted filename @ '' split into ''
                                               @ str_nat (length chunks) @ '' chunks'') w2;
                                   safe_org_id = sanitize_azure_name org_id
                               in case process_chunks env org_id safe_org_id filename filepath
                                         blob_name file_extension (length chunks) 0 chunks
                                         (documents, mongo_documents) w3 of
                                    (Inl e, w4) \<Rightarrow> Some (Inl e, w4)
                                  | (Inr (documents', mongo_documents'), w4) \<Rightarrow>
                                      process_files env org_id directory_path chunk_size overlap
                                        rest (documents', mongo_documents', processed_files + 1)
                                        w4)))))"

text \<open>
  The upload to the vector index (lines 198 to 212): \<open>merge_or_upload_documents\<close>, on
  an \<open>AttributeError\<close> \<open>upload_documents\<close> with a merge mode, on a \<open>TypeError\<close> of
  that the plain \<open>upload_documents\<close>.
\<close>

definition upload_to_search ::
  "'v env \<Rightarrow> string \<Rightarrow> string \<Rightarrow> 'v index_document list \<Rightarrow> 'v world \<Rightarrow> (exn + unit) \<times> 'v world" where
  "upload_to_search env org_search_client org_id documents w =
     (let uploaded = ''Uploaded '' @ str_nat (length documents) @ '' documents to organization ''
                     @ quoted org_id @ '' search index.''
      in if documents \<noteq> [] then
           (let w1 = emit (IndexUpload MergeOrUploadDocuments org_search_client documents) w
            in case index_upload env MergeOrUploadDocuments org_search_client documents of
                 None \<Rightarrow> (Inr (), print uploaded w1)
               | Some (AttributeError m) \<Rightarrow>
                   (let w2 = emit (IndexUpload UploadDocumentsMergeMode org_search_client documents) w1
                    in case index_upload env UploadDocumentsMergeMode org_search_client documents of
                         None \<Rightarrow> (Inr (), print uploaded w2)
                       | Some (TypeError m') \<Rightarrow>
                           (let w3 = print ''Warning: Using basic upload - may create duplicates on re-runs'' w2;
                                w4 = emit (IndexUpload UploadDocuments org_search_client documents) w3
                            in case index_upload env UploadDocuments org_search_client documents of
                                 None \<Rightarrow> (Inr (), print uploaded w4)
                               | Some e \<Rightarrow> (Inl e, w4))
                       | Some e \<Rightarrow> (Inl e, w2))
               | Some e \<Rightarrow> (Inl e, w1))
         else (Inr (), print ''No new documents to upload to Azure Search.'' w))"

text \<open>
  The storing of the metadata (lines 214 to 241). Its \<open>except Exception\<close> handler
  prints two lines and goes on, so this block never raises.
\<close>

definition store_metadata ::
  "'v env \<Rightarrow> string \<Rightarrow> string \<Rightarrow> int \<Rightarrow> int \<Rightarrow> string \<Rightarrow> string \<Rightarrow> nat \<Rightarrow> doc_data list
     \<Rightarrow> 'v world \<Rightarrow> 'v world" where
  "store_metadata env org_id directory_path chunk_size overlap source_name source_description
       processed_files mongo_documents w =
     (if mongo_documents \<noteq> [] then
        (let configuration =
               [(''directory_path'', PyStr directory_path),
                (''chunk_size'', PyInt chunk_size),
                (''overlap'', PyInt overlap),
                (''processed_files'', PyInt (int processed_files)),
                (''total_chunks'', PyInt (int (length mongo_documents))),
                (''processing_type'', PyStr ''batch_directory'')]
         in case process_file_batch env org_id source_name mongo_documents
                   (Some source_description) (Some configuration) w of
              (Inr (source_id, document_ids), w1) \<Rightarrow>
                print (''Knowledge source ID: '' @ source_id)
                  (print (''Stored metadata for '' @ str_nat (length document_ids)
                          @ '' documents in MongoDB'') w1)
            | (Inl e, w1) \<Rightarrow>
                print ''Azure Search documents uploaded successfully, but MongoDB storage failed''
                  (print (''Error storing metadata in MongoDB: '' @ exn_str e) w1))
      else print ''No documents to store in MongoDB.'' w)"

text \<open>
  \<open>process_and_upload_org_files\<close>. The function has no \<open>return\<close> statement: when it
  does not raise, its caller gets \<open>None\<close>. The search client is made before the
  \<open>try\<close>; what the \<open>try\<close> block raises is printed and raised again.
\<close>

definition process_and_upload_org_files ::
  "'v env \<Rightarrow> string \<Rightarrow> string \<Rightarrow> int \<Rightarrow> int \<Rightarrow> 'v world \<Rightarrow> ((exn + pyval) \<times> 'v world) option" where
  "process_and_upload_org_files env org_id directory_path chunk_size overlap w =
     (let w1 = print (''Processing files for organization '' @ quoted org_id
                      @ '' in directory: '' @ directory_path) w;
          w2 = print (''Using chunk size: '' @ str_int chunk_size @ '' characters, overlap: ''
                      @ str_int overlap @ '' characters'') w1
      in case get_search_client env org_id of
           Inl e \<Rightarrow> Some (Inl e, w2)
         | Inr org_search_client \<Rightarrow>
             (let source_name = ''Batch Processing - '' @ basename directory_path;
                  source_description = ''Files processed from directory: '' @ directory_path
              in case (case listdir env directory_path of
                         Inl e \<Rightarrow> Some (Inl e, w2)
                       | Inr filenames \<Rightarrow>
                           (case process_files env org_id directory_path chunk_size overlap
                                   filenames ([], [], 0) w2 of
                              None \<Rightarrow> None
                            | Some (Inl e, w3) \<Rightarrow> Some (Inl e, w3)
                            | Some (Inr (documents, mongo_documents, processed_files), w3) \<Rightarrow>
                                (let w4 = print (''Processed '' @ str_nat processed_files
                                                 @ '' files for organization '' @ quoted org_id) w3
                                 in case upload_to_search env org_search_client org_id documents w4 of
                                      (Inl e, w5) \<Rightarrow> Some (Inl e, w5)
                                    | (Inr _, w5) \<Rightarrow>
                                        Some (Inr PyNone,
                                              store_metadata env org_id directory_path chunk_size
                                                overlap source_name source_description
                                                processed_files mongo_documents w5)))) of
                   None \<Rightarrow> None
                 | Some (Inl e, w') \<Rightarrow>
                     Some (Inl e, print (''Error during file processing: '' @ exn_str e) w')
                 | Some (Inr r, w') \<Rightarrow> Some (Inr r, w')))"

section \<open>Predicates on the calls\<close>

fun is_generation_call :: "'v call \<Rightarrow> bool" where
  "is_generation_call (ChatCompletionsCreate s u) = True"
| "is_generation_call _ = False"

fun is_index_write :: "'v call \<Rightarrow> bool" where
  "is_index_write (IndexUpload m c ds) = True"
| "is_index_write _ = False"

text \<open>The calls made since the world \<open>w\<close>, in the later world \<open>w'\<close>.\<close>

definition new_calls :: "'v world \<Rightarrow> 'v world \<Rightarrow> 'v call list" where
  "new_calls w w' = drop (length (calls w)) (calls w')"

fun is_print :: "'v call \<Rightarrow> bool" where
  "is_print (Print s) = True"
| "is_print _ = False"

text \<open>
  The later world \<open>w'\<close> differs from \<open>w\<close> only by calls that satisfy \<open>P\<close> and by
  readings of the clock: the record store is as it was.
\<close>

definition only_calls :: "('v call \<Rightarrow> bool) \<Rightarrow> 'v world \<Rightarrow> 'v world \<Rightarrow> bool" where
  "only_calls P w w' =
     (\<exists>cs n. w' = w\<lparr>calls := calls w @ cs, ticks := ticks w + n\<rparr> \<and> list_all P cs)"

text \<open>
  A Knowledge Document that was created completed: its status is \<open>COMPLETED\<close> and its
  processed-at time is its creation time.
\<close>

definition created_completed :: "knowledge_document \<Rightarrow> bool" where
  "created_completed d =
     (kd_status d = Some ''COMPLETED'' \<and> kd_processedAt d = Some (kd_createdAt d))"

text \<open>
  The upload of a file to the blob store goes through: the file exists, the blob service
  is configured, the container is made or is there already, and the blob is accepted.
\<close>

definition upload_succeeds :: "'v env \<Rightarrow> string \<Rightarrow> string \<Rightarrow> bool" where
  "upload_succeeds env org_id file_path =
     (path_exists env file_path \<and> get_blob_service_client env = Inr () \<and>
      (case create_container env (sanitize_azure_name org_id) of
         None \<Rightarrow> True
       | Some (ResourceExistsError m) \<Rightarrow> True
       | Some e \<Rightarrow> False) \<and>
      upload_blob env (sanitize_azure_name org_id) (basename file_path) = None)"

text \<open>
  A directory entry that yields no chunk: a directory, a file with an extension that is
  not supported, or a file that is uploaded and whose extracted text is blank.
\<close>

definition blank_or_skipped :: "'v env \<Rightarrow> string \<Rightarrow> string \<Rightarrow> string \<Rightarrow> bool" where
  "blank_or_skipped env org_id directory_path filename =
     (let filepath = path_join directory_path filename;
          file_extension = lower (splitext_ext filename)
      in isdir env filepath \<or> file_extension \<notin> set SUPPORTED_EXTENSIONS \<or>
         (upload_succeeds env org_id filepath \<and> strip (extract_text_from_file env filepath) = []))"

text \<open>
  The Knowledge Document \<open>d\<close> is as its input data \<open>dd\<close> asks: with the status the data
  supplies, and created completed when the data has no \<open>status\<close> key.
\<close>

definition created_as :: "doc_data \<Rightarrow> knowledge_document \<Rightarrow> bool" where
  "created_as dd d =
     (case dd_status dd of
        None \<Rightarrow> created_completed d
      | Some s \<Rightarrow> kd_status d = s \<and>
                 kd_processedAt d = (if s = Some ''COMPLETED'' then Some (kd_createdAt d) else None))"

section \<open>A concrete environment\<close>

text \<open>
  An environment and a starting world on which the functions can be run: every service
  answers, the directory \<open>data\<close> holds a text file, a blank text file and a picture,
  and the index finds nothing.
\<close>

definition demo_env :: "nat env" where
  "demo_env =
     \<lparr>search_service_endpoint = Some ''https://search.example'',
      search_admin_key = Some ''key'',
      openai_endpoint = Some ''https://openai.example'',
      openai_api_key = Some ''key'',
      storage_connection_string = Some ''connection'',
      storage_account_name = None,
      embeddings_create = (\<lambda>t. Inr (length t)),
      chat_completions_create = (\<lambda>s u. Inr ''answer''),
      index_search = (\<lambda>i v k f. Inr []),
      index_upload = (\<lambda>m c ds. None),
      listdir = (\<lambda>d. Inr [''notes.txt'', ''blank.txt'', ''image.png'']),
      isdir = (\<lambda>p. False),
      path_exists = (\<lambda>p. True),
      create_container = (\<lambda>c. None),
      upload_blob = (\<lambda>c b. None),
      extract_text_from_file = (\<lambda>p. if p = ''data/notes.txt'' then ''The sky is blue.'' else ''  ''),
      utc = (\<lambda>n. 1000 + n),
      isoformat = (\<lambda>t. str_nat t),
      object_id = (\<lambda>n. ''oid'' @ str_nat n),
      mongo_fault = (\<lambda>op. None)\<rparr>"

definition demo_world :: "nat world" where
  "demo_world =
     \<lparr>calls = [], knowledge_sources = [], knowledge_documents = [], ticks = 0, oids = 0\<rparr>"

text \<open>The same environment with a record store that refuses the insertion of documents.\<close>

definition demo_env_insert_fails :: "nat env" where
  "demo_env_insert_fails =
     demo_env\<lparr>mongo_fault :=
       (\<lambda>op. if op = InsertMany then Some (OtherError ''insert failed'') else None)\<rparr>"

text \<open>
  The same environment with a record store that refuses the insertion of documents and,
  after it, the update of the status to \<open>FAILED\<close>.
\<close>

definition demo_env_store_down :: "nat env" where
  "demo_env_store_down =
     demo_env\<lparr>mongo_fault :=
       (\<lambda>op. if op = InsertMany then Some (OtherError ''insert failed'')
             else if op = UpdateOne ''FAILED'' then Some (OtherError ''update failed'')
             else None)\<rparr>"

text \<open>The same environment with a directory that holds no file with text.\<close>

definition demo_env_blank :: "nat env" where
  "demo_env_blank = demo_env\<lparr>listdir := (\<lambda>d. Inr [''blank.txt'', ''image.png''])\<rparr>"

definition demo_file_data :: "doc_data list" where
  "demo_file_data =
     [\<lparr>dd_title = Some (Some ''notes.txt - Chunk 1''),
       dd_content = Some (Some ''The sky is blue.''),
       dd_url = None,
       dd_metadata = None,
       dd_status = None\<rparr>]"

section \<open>Verification: the chunker\<close>

subsection \<open>Trimming\<close>

lemma length_strip_le_dropWhile: "length (strip s) \<le> length (dropWhile isspace s)"
  unfolding strip_def by (metis length_dropWhile_le length_rev)

lemma length_strip_le: "length (strip s) \<le> length s"
proof -
  have "length (strip s) \<le> length (dropWhile isspace s)"
    by (rule length_strip_le_dropWhile)
  also have "\<dots> \<le> length s" by (rule length_dropWhile_le)
  finally show ?thesis .
qed

lemma filter_dropWhile_neg: "filter (\<lambda>c. \<not> P c) (dropWhile P xs) = filter (\<lambda>c. \<not> P c) xs"
  by (induction xs) auto

lemma filter_strip: "filter (\<lambda>c. \<not> isspace c) (strip s) = filter (\<lambda>c. \<not> isspace c) s"
proof -
  have "filter (\<lambda>c. \<not> isspace c) (strip s)
        = rev (filter (\<lambda>c. \<not> isspace c) (dropWhile isspace (rev (dropWhile isspace s))))"
    unfolding strip_def by (simp add: rev_filter)
  also have "\<dots> = rev (filter (\<lambda>c. \<not> isspace c) (rev (dropWhile isspace s)))"
    by (simp only: filter_dropWhile_neg)
  also have "\<dots> = filter (\<lambda>c. \<not> isspace c) (dropWhile isspace s)"
    by (simp add: rev_filter)
  finally show ?thesis by (simp only: filter_dropWhile_neg)
qed

lemma strip_fixed_iff:
  "strip s = s \<longleftrightarrow> s = [] \<or> (\<not> isspace (hd s) \<and> \<not> isspace (last s))"
proof (cases "s = []")
  case True then show ?thesis by (simp add: strip_def)
next
  case False
  show ?thesis
  proof (cases "isspace (hd s)")
    case True
    have "length (strip s) \<le> length (dropWhile isspace s)"
      by (rule length_strip_le_dropWhile)
    moreover have "length (dropWhile isspace s) < length s"
      using False True by (cases s) (auto simp: le_imp_less_Suc length_dropWhile_le)
    ultimately have "strip s \<noteq> s" by auto
    with True False show ?thesis by simp
  next
    case hd: False
    then have d: "dropWhile isspace s = s" using False by (cases s) auto
    show ?thesis
    proof (cases "isspace (last s)")
      case True
      then have "isspace (hd (rev s))" using False by (simp add: hd_rev)
      then have "length (dropWhile isspace (rev s)) < length (rev s)"
        using False by (cases "rev s") (auto simp: le_imp_less_Suc length_dropWhile_le)
      then have "strip s \<noteq> s" unfolding strip_def d
        by (metis length_rev less_irrefl)
      with True False show ?thesis by simp
    next
      case l: False
      then have "\<not> isspace (hd (rev s))" using False by (simp add: hd_rev)
      then have "dropWhile isspace (rev s) = rev s" using False by (cases "rev s") auto
      then show ?thesis using hd l by (simp add: strip_def d)
    qed
  qed
qed

lemma strip_ends:
  assumes "strip s \<noteq> []"
  shows "\<not> isspace (hd (strip s)) \<and> \<not> isspace (last (strip s))"
proof -
  let ?u = "dropWhile isspace s"
  let ?v = "dropWhile isspace (rev ?u)"
  have v: "?v \<noteq> []" using assms by (simp add: strip_def)
  then have hv: "\<not> isspace (hd ?v)" by (rule hd_dropWhile)
  have u: "?u \<noteq> []"
  proof
    assume "?u = []"
    then have "?v = []" by (simp only: rev.simps dropWhile.simps)
    with v show False by blast
  qed
  then have hu: "\<not> isspace (hd ?u)" by (rule hd_dropWhile)
  have "last ?v = last (rev ?u)"
    using v by (metis append_is_Nil_conv last_appendR takeWhile_dropWhile_id)
  then have "last ?v = hd ?u" using u by (simp add: last_rev)
  then show ?thesis using hv hu v by (simp add: strip_def hd_rev last_rev)
qed

lemma strip_idem: "strip (strip s) = strip s"
  using strip_ends[of s] by (auto simp: strip_fixed_iff)

lemma rscan_range: "rscan t c lo hi = - 1 \<or> (int lo \<le> rscan t c lo hi \<and> rscan t c lo hi < int hi)"
  by (induction hi) auto

lemma rscan_found: "0 \<le> rscan t c lo hi \<Longrightarrow> t ! nat (rscan t c lo hi) = c"
  by (induction hi) (auto split: if_splits)


lemma length_slice_le:
  "int (length (slice t s e)) \<le> max 0 (int (adjust_index (length t) e) - int (adjust_index (length t) s))"
  by (simp add: slice_def Let_def)

lemma window_width:
  assumes "c < int n" "0 \<le> c" "- c \<le> s"
  shows "int (adjust_index n (s + c)) - int (adjust_index n s) \<le> c"
  using assms by (auto simp: adjust_index_def)

lemma window_length:
  assumes "c < int (length t)" "0 \<le> ov" "ov < c" "- 1 - ov \<le> s"
    and "e = s + c \<or> (e = rfind t ch s (s + c) \<and> s < e)"
  shows "int (length (slice t s e)) \<le> c"
proof -
  let ?n = "length t"
  have w: "int (adjust_index ?n (s + c)) - int (adjust_index ?n s) \<le> c"
    using assms(1-4) by (intro window_width) auto
  from assms(5) show ?thesis
  proof
    assume "e = s + c"
    with w length_slice_le[of t s e] assms show ?thesis by simp
  next
    assume r: "e = rfind t ch s (s + c) \<and> s < e"
    from rscan_range[of t ch "adjust_index ?n s" "adjust_index ?n (s + c)"]
    have "e = - 1 \<or> (int (adjust_index ?n s) \<le> e \<and> e < int (adjust_index ?n (s + c)))"
      using r by (simp add: rfind_def)
    then show ?thesis
    proof
      assume "e = - 1"
      then have "int (adjust_index ?n e) - int (adjust_index ?n s) \<le> c"
        using r assms(1-4) by (auto simp: adjust_index_def)
      with length_slice_le[of t s e] assms show ?thesis by simp
    next
      assume b: "int (adjust_index ?n s) \<le> e \<and> e < int (adjust_index ?n (s + c))"
      then have "0 \<le> e" by linarith
      then have "int (adjust_index ?n e) \<le> e" by (simp add: adjust_index_def)
      with b w have "int (adjust_index ?n e) - int (adjust_index ?n s) \<le> c" by linarith
      with length_slice_le[of t s e] assms show ?thesis by simp
    qed
  qed
qed

lemma window_end_lower:
  assumes "- 1 - ov \<le> s" "ov < c"
    and "e = s + c \<or> (e = rfind t ch s (s + c) \<and> s < e)"
  shows "- 1 \<le> e"
  using assms rscan_range[of t ch "adjust_index (length t) s" "adjust_index (length t) (s + c)"]
  by (auto simp: rfind_def)


lemma chunk_loop_chunks:
  assumes "chunk_loop t c ov s chs = Some y"
  shows "c < int (length t) \<and> 0 \<le> ov \<and> ov < c \<and> - 1 - ov \<le> s \<and>
           (\<forall>x\<in>set chs. int (length x) \<le> c \<and> strip x \<noteq> [])
         \<longrightarrow> (\<forall>x\<in>set y. int (length x) \<le> c \<and> strip x \<noteq> [])"
proof (rule chunk_loop.raw_induct
    [where P = "\<lambda>t c ov s chs y. c < int (length t) \<and> 0 \<le> ov \<and> ov < c \<and> - 1 - ov \<le> s \<and>
           (\<forall>x\<in>set chs. int (length x) \<le> c \<and> strip x \<noteq> [])
         \<longrightarrow> (\<forall>x\<in>set y. int (length x) \<le> c \<and> strip x \<noteq> [])", OF _ assms])
  fix f :: "string \<Rightarrow> int \<Rightarrow> int \<Rightarrow> int \<Rightarrow> string list \<Rightarrow> string list option"
  fix t c ov s chs y
  assume IH: "\<And>t c ov s chs y. f t c ov s chs = Some y \<Longrightarrow>
       c < int (length t) \<and> 0 \<le> ov \<and> ov < c \<and> - 1 - ov \<le> s \<and>
           (\<forall>x\<in>set chs. int (length x) \<le> c \<and> strip x \<noteq> [])
         \<longrightarrow> (\<forall>x\<in>set y. int (length x) \<le> c \<and> strip x \<noteq> [])"
  assume body: "(if s < int (length t) then
        (let end0 = s + c;
             end = (if end0 < int (length t) then
                      (let last_space = rfind t (CHR '' '') s end0
                       in if last_space > s then last_space else end0)
                    else end0);
             chunk = strip (slice t s end);
             chunks' = (if chunk \<noteq> [] then chs @ [chunk] else chs);
             start' = end - ov
         in if start' \<ge> int (length t) then Some chunks'
            else f t c ov start' chunks')
      else Some chs) = Some y"
  define e where "e = (if s + c < int (length t) then
                      (let last_space = rfind t (CHR '' '') s (s + c)
                       in if last_space > s then last_space else s + c)
                    else s + c)"
  define chunk where "chunk = strip (slice t s e)"
  define chs' where "chs' = (if chunk \<noteq> [] then chs @ [chunk] else chs)"
  have body': "(if s < int (length t) then
                 (if e - ov \<ge> int (length t) then Some chs' else f t c ov (e - ov) chs')
               else Some chs) = Some y"
    using body unfolding e_def chunk_def chs'_def Let_def .
  have e_cases: "e = s + c \<or> (e = rfind t (CHR '' '') s (s + c) \<and> s < e)"
    by (simp add: e_def Let_def)
  show "c < int (length t) \<and> 0 \<le> ov \<and> ov < c \<and> - 1 - ov \<le> s \<and>
           (\<forall>x\<in>set chs. int (length x) \<le> c \<and> strip x \<noteq> [])
         \<longrightarrow> (\<forall>x\<in>set y. int (length x) \<le> c \<and> strip x \<noteq> [])"
  proof
    assume pre: "c < int (length t) \<and> 0 \<le> ov \<and> ov < c \<and> - 1 - ov \<le> s \<and>
           (\<forall>x\<in>set chs. int (length x) \<le> c \<and> strip x \<noteq> [])"
    have "int (length (slice t s e)) \<le> c"
      using pre e_cases by (intro window_length[where ov = ov and ch = "CHR '' ''"]) auto
    then have len: "int (length chunk) \<le> c"
      using length_strip_le[of "slice t s e"] by (simp add: chunk_def)
    have ne: "chunk \<noteq> [] \<Longrightarrow> strip chunk \<noteq> []"
      by (simp add: chunk_def strip_idem)
    have good': "\<forall>x\<in>set chs'. int (length x) \<le> c \<and> strip x \<noteq> []"
      using pre len ne by (auto simp: chs'_def)
    have lower: "- 1 - ov \<le> e - ov"
      using window_end_lower[of ov s c e t "CHR '' ''"] pre e_cases by auto
    show "\<forall>x\<in>set y. int (length x) \<le> c \<and> strip x \<noteq> []"
    proof (cases "s < int (length t)")
      case False
      with body' have "y = chs" by simp
      with pre show ?thesis by simp
    next
      case True
      show ?thesis
      proof (cases "e - ov \<ge> int (length t)")
        case True
        with \<open>s < int (length t)\<close> body' have "y = chs'" by simp
        with good' show ?thesis by simp
      next
        case False
        with \<open>s < int (length t)\<close> body' have "f t c ov (e - ov) chs' = Some y" by simp
        from IH[OF this] pre lower good' show ?thesis by blast
      qed
    qed
  qed
qed


lemma slice_nonneg:
  assumes "s \<le> length t" "int s \<le> e"
  shows "slice t (int s) e = take (min (nat e) (length t) - s) (drop s t)"
  using assms by (simp add: slice_def adjust_index_def Let_def min_def)

lemma chunk_loop_no_overlap:
  assumes "0 < c"
  shows "s \<le> length t \<Longrightarrow>
         \<exists>ys. chunk_loop t c 0 (int s) chs = Some (chs @ ys) \<and>
              filter (\<lambda>x. \<not> isspace x) (concat ys) = filter (\<lambda>x. \<not> isspace x) (drop s t)"
proof (induction "length t - s" arbitrary: s chs rule: less_induct)
  case less
  show ?case
  proof (cases "s = length t")
    case True
    then have "chunk_loop t c 0 (int s) chs = Some chs"
      by (subst chunk_loop.simps) simp
    with True show ?thesis by simp
  next
    case False
    with less.prems have slt: "s < length t" by simp
    define e where "e = (if int s + c < int (length t) then
                      (let last_space = rfind t (CHR '' '') (int s) (int s + c)
                       in if last_space > int s then last_space else int s + c)
                    else int s + c)"
    define chunk where "chunk = strip (slice t (int s) e)"
    define chs' where "chs' = (if chunk \<noteq> [] then chs @ [chunk] else chs)"
    have unfold: "chunk_loop t c 0 (int s) chs =
                 (if e \<ge> int (length t) then Some chs' else chunk_loop t c 0 e chs')"
      using slt by (subst chunk_loop.simps) (simp add: e_def chunk_def chs'_def Let_def)
    have e_gt: "int s < e" using assms by (simp add: e_def Let_def)
    have sl: "slice t (int s) e = take (min (nat e) (length t) - s) (drop s t)"
      using slt e_gt by (intro slice_nonneg) auto
    have fchunk: "filter (\<lambda>x. \<not> isspace x) chunk = filter (\<lambda>x. \<not> isspace x) (slice t (int s) e)"
      by (simp add: chunk_def filter_strip)
    have chs'_eq: "\<exists>zs. chs' = chs @ zs \<and>
        filter (\<lambda>x. \<not> isspace x) (concat zs) = filter (\<lambda>x. \<not> isspace x) (slice t (int s) e)"
    proof (cases "chunk = []")
      case True
      then have "chs' = chs @ []" by (simp add: chs'_def)
      moreover have "filter (\<lambda>x. \<not> isspace x) (concat []) = filter (\<lambda>x. \<not> isspace x) (slice t (int s) e)"
        using fchunk True by simp
      ultimately show ?thesis by blast
    next
      case False
      then have "chs' = chs @ [chunk]" by (simp add: chs'_def)
      moreover have "filter (\<lambda>x. \<not> isspace x) (concat [chunk]) = filter (\<lambda>x. \<not> isspace x) (slice t (int s) e)"
        using fchunk by simp
      ultimately show ?thesis by blast
    qed
    then obtain zs where zs: "chs' = chs @ zs"
      "filter (\<lambda>x. \<not> isspace x) (concat zs) = filter (\<lambda>x. \<not> isspace x) (slice t (int s) e)"
      by blast
    show ?thesis
    proof (cases "e \<ge> int (length t)")
      case True
      then have "slice t (int s) e = drop s t" using sl by simp
      with zs unfold True show ?thesis by auto
    next
      case False
      define s' where "s' = nat e"
      have s': "int s' = e" "s < s'" "s' \<le> length t" using e_gt False by (auto simp: s'_def)
      then have "length t - s' < length t - s" using slt by linarith
      from less.hyps[OF this s'(3), of chs'] obtain ys where
        ys: "chunk_loop t c 0 (int s') chs' = Some (chs' @ ys)"
            "filter (\<lambda>x. \<not> isspace x) (concat ys) = filter (\<lambda>x. \<not> isspace x) (drop s' t)"
        by blast
      have "slice t (int s) e = take (s' - s) (drop s t)"
        using sl s'(3) by (simp add: s'_def min_def)
      moreover have "drop s t = take (s' - s) (drop s t) @ drop s' t"
      proof -
        have "drop s' t = drop (s' - s) (drop s t)" using s'(2) by simp
        then show ?thesis by (simp only: append_take_drop_id)
      qed
      ultimately have "filter (\<lambda>x. \<not> isspace x) (drop s t)
          = filter (\<lambda>x. \<not> isspace x) (concat zs) @ filter (\<lambda>x. \<not> isspace x) (concat ys)"
        using zs(2) ys(2) by (metis filter_append)
      moreover have "chunk_loop t c 0 (int s) chs = Some (chs @ (zs @ ys))"
        using unfold False ys(1) zs(1) s'(1) by simp
      ultimately show ?thesis by (intro exI[of _ "zs @ ys"]) simp
    qed
  qed
qed

subsection \<open>A window that does not advance\<close>

lemma chunk_loop_stuck:
  assumes "s < int (length t)" and "s + c < int (length t)"
    and "s < rfind t (CHR '' '') s (s + c)"
    and "rfind t (CHR '' '') s (s + c) - ov = s"
  shows "chunk_loop t c ov s chs = None"
proof (cases "chunk_loop t c ov s chs")
  case None
  then show ?thesis .
next
  case (Some y)
  have "\<not> (t = t \<and> c = c \<and> ov = ov \<and> s = s)"
  proof (rule chunk_loop.raw_induct
      [where P = "\<lambda>t' c' ov' s' chs' y'. \<not> (t' = t \<and> c' = c \<and> ov' = ov \<and> s' = s)", OF _ Some])
    fix f :: "string \<Rightarrow> int \<Rightarrow> int \<Rightarrow> int \<Rightarrow> string list \<Rightarrow> string list option"
    fix t' c' ov' s' chs' y'
    assume IH: "\<And>t' c' ov' s' chs' y'. f t' c' ov' s' chs' = Some y' \<Longrightarrow>
                  \<not> (t' = t \<and> c' = c \<and> ov' = ov \<and> s' = s)"
    assume body: "(if s' < int (length t') then
        (let end0 = s' + c';
             end = (if end0 < int (length t') then
                      (let last_space = rfind t' (CHR '' '') s' end0
                       in if last_space > s' then last_space else end0)
                    else end0);
             chunk = strip (slice t' s' end);
             chunks' = (if chunk \<noteq> [] then chs' @ [chunk] else chs');
             start' = end - ov'
         in if start' \<ge> int (length t') then Some chunks'
            else f t' c' ov' start' chunks')
      else Some chs') = Some y'"
    show "\<not> (t' = t \<and> c' = c \<and> ov' = ov \<and> s' = s)"
    proof
      assume eq: "t' = t \<and> c' = c \<and> ov' = ov \<and> s' = s"
      with body assms have "\<exists>chunks'. f t c ov s chunks' = Some y'"
        by (auto simp: Let_def split: if_splits)
      with IH show False by blast
    qed
  qed
  then show ?thesis by simp
qed

subsection \<open>Claims about the chunker\<close>

text \<open>
  Claim C1 says that \<open>chunk_text\<close> returns for every text whenever
  \<open>chunk_size > overlap \<ge> 0\<close>. The code does not: on the text \<open>a bcd\<close> with
  \<open>chunk_size = 3\<close> and \<open>overlap = 1\<close> the right edge of the first window is pulled
  back to the space at position 1, the next window starts at \<open>1 - 1 = 0\<close> again, and
  the loop repeats that step for ever.
\<close>

theorem chunk_text_diverges:
  "(1::int) < 3 \<and> (0::int) \<le> 1 \<and> int (length ''a bcd'') > 3 \<and> chunk_text ''a bcd'' 3 1 = None"
proof -
  have "rfind ''a bcd'' (CHR '' '') 0 (0 + 3) = 1" by code_simp
  then have "chunk_loop ''a bcd'' 3 1 0 [] = None"
    by (intro chunk_loop_stuck) simp_all
  then show ?thesis by (simp add: chunk_text_def)
qed

text \<open>
  What does hold of the chunks of a text longer than \<open>chunk_size\<close>, with
  \<open>chunk_size > overlap \<ge> 0\<close>: whenever \<open>chunk_text\<close> returns, every chunk has at
  most \<open>chunk_size\<close> characters and is non-empty after trimming; and with
  \<open>overlap = 0\<close> it does return, and the chunks hold, in order, exactly the
  non-whitespace characters of the text.
\<close>

lemma chunk_text_long_chunks:
  assumes "chunk_size < int (length text)" and "0 \<le> overlap" and "overlap < chunk_size"
  shows "(\<forall>chunks. chunk_text text chunk_size overlap = Some chunks \<longrightarrow>
            (\<forall>c\<in>set chunks. int (length c) \<le> chunk_size \<and> strip c \<noteq> []))
       \<and> (overlap = 0 \<longrightarrow>
            (\<exists>chunks. chunk_text text chunk_size overlap = Some chunks \<and>
               filter (\<lambda>x. \<not> isspace x) (concat chunks) = filter (\<lambda>x. \<not> isspace x) text))"
proof (intro conjI allI impI)
  fix chunks
  assume "chunk_text text chunk_size overlap = Some chunks"
  with assms(1) have "chunk_loop text chunk_size overlap 0 [] = Some chunks"
    by (simp add: chunk_text_def)
  from chunk_loop_chunks[OF this] assms
  show "\<forall>c\<in>set chunks. int (length c) \<le> chunk_size \<and> strip c \<noteq> []"
    by simp
next
  assume z: "overlap = 0"
  with assms(3) have "0 < chunk_size" by simp
  from chunk_loop_no_overlap[OF this, of 0 "text" "[]"]
  obtain ys where "chunk_loop text chunk_size 0 0 [] = Some ys"
    and "filter (\<lambda>x. \<not> isspace x) (concat ys) = filter (\<lambda>x. \<not> isspace x) text"
    by auto
  with assms(1) z
  show "\<exists>chunks. chunk_text text chunk_size overlap = Some chunks \<and>
          filter (\<lambda>x. \<not> isspace x) (concat chunks) = filter (\<lambda>x. \<not> isspace x) text"
    by (simp add: chunk_text_def)
qed

text \<open>
  An instance: with \<open>chunk_size = 3\<close> and \<open>overlap = 0\<close> the text \<open>ab cd\<close> is split
  into \<open>ab\<close> and \<open>cd\<close>. The space at position 2 is in neither chunk: every window is
  trimmed, so whitespace at the edge of a window is dropped by design.
\<close>

lemma chunk_text_long_chunks_example:
  "(3::int) < int (length ''ab cd'') \<and> (0::int) \<le> 0 \<and> (0::int) < 3 \<and>
   chunk_text ''ab cd'' 3 0 = Some [''ab'', ''cd''] \<and>
   int (length ''ab'') \<le> 3 \<and> strip ''ab'' \<noteq> [] \<and>
   int (length ''cd'') \<le> 3 \<and> strip ''cd'' \<noteq> [] \<and>
   filter (\<lambda>x. \<not> isspace x) (concat [''ab'', ''cd'']) = filter (\<lambda>x. \<not> isspace x) ''ab cd'' \<and>
   ''ab cd'' ! 2 \<notin> set ''ab'' \<and> ''ab cd'' ! 2 \<notin> set ''cd''"
proof -
  have r: "chunk_text ''ab cd'' 3 0 = Some [''ab'', ''cd'']" by code_simp
  have "(3::int) < int (length ''ab cd'')" "(0::int) \<le> 0" "(0::int) < 3" by simp_all
  from chunk_text_long_chunks[OF this] r show ?thesis by simp
qed

text \<open>
  Claim C2 says that for a text longer than \<open>chunk_size\<close>, with
  \<open>chunk_size > overlap \<ge> 0\<close>, every character position of the text is in at least one
  returned chunk. The code loses text: on the 17 characters \<open>a bcdefghijklmnop\<close> with
  \<open>chunk_size = 10\<close> and \<open>overlap = 2\<close> it returns \<open>a\<close>, \<open>ghijklmnop\<close> and \<open>op\<close>.
  The first window is pulled back to the space at position 1, so the next window starts
  at \<open>1 - 2 = -1\<close>; the slice from \<open>-1\<close> to \<open>9\<close> counts its left edge from the end of
  the text and is empty, and the window after it starts at \<open>9 - 2 = 7\<close>. The
  non-whitespace characters \<open>bcdef\<close> at positions 2 to 6 are in no chunk.
\<close>

theorem chunk_text_loses_text:
  "(10::int) < int (length ''a bcdefghijklmnop'') \<and> (0::int) \<le> 2 \<and> (2::int) < 10 \<and>
   chunk_text ''a bcdefghijklmnop'' 10 2 = Some [''a'', ''ghijklmnop'', ''op''] \<and>
   take 5 (drop 2 ''a bcdefghijklmnop'') = ''bcdef'' \<and>
   filter isspace ''bcdef'' = [] \<and>
   set ''bcdef'' \<inter> (set ''a'' \<union> set ''ghijklmnop'' \<union> set ''op'') = {}"
proof -
  have "chunk_text ''a bcdefghijklmnop'' 10 2 = Some [''a'', ''ghijklmnop'', ''op'']"
    by code_simp
  moreover have "filter isspace ''bcdef'' = []" by code_simp
  ultimately show ?thesis by simp
qed

text \<open>
  Claim C3, as amended. For a text with \<open>len(text) \<le> chunk_size\<close>, \<open>chunk_text\<close>
  returns exactly one element, and that element is the input text itself, not
  trimmed.
\<close>

theorem chunk_text_short:
  assumes "int (length text) \<le> chunk_size"
  shows "chunk_text text chunk_size overlap = Some [text]"
  using assms by (simp add: chunk_text_def)

theorem chunk_text_short_witness:
  "int (length '' a'') \<le> 800 \<and> chunk_text '' a'' 800 100 = Some ['' a'']"
  using chunk_text_short[of "'' a''" 800 100] by simp

text \<open>
  Claim C3 as stated fails: the text \<open>" a"\<close> is shorter than the chunk size, and the
  one chunk returned keeps the leading space, while the trimmed text is \<open>a\<close>.
\<close>

theorem chunk_text_short_counterexample:
  "int (length '' a'') \<le> 800 \<and> strip '' a'' = ''a'' \<and>
   chunk_text '' a'' 800 100 \<noteq> Some [strip '' a'']"
proof -
  have "strip '' a'' = ''a''" by code_simp
  then show ?thesis by (simp add: chunk_text_def)
qed

section \<open>Verification: the namespace sanitizer\<close>

lemma replace_char:
  "replace [a] [b] s = map (\<lambda>c. if c = a then b else c) s"
proof (induction s)
  case Nil
  show ?case by (subst replace.simps) simp
next
  case (Cons c s)
  then show ?case by (subst replace.simps) simp
qed

lemma lower_name_char: "name_char c \<Longrightarrow> lower_char c = c"
  by (auto simp: name_char_def lower_char_def Let_def)

lemma name_char_not_underscore: "name_char c \<Longrightarrow> c \<noteq> CHR ''_'' \<and> c \<noteq> CHR '' ''"
  by (auto simp: name_char_def Let_def)

lemma sub_dashes_Nil_iff: "sub_dashes s = [] \<longleftrightarrow> s = []"
  by (cases s) simp_all

lemma hd_sub_dashes: "hd (sub_dashes s) = hd s"
  by (cases s) simp_all

lemma set_dropWhile_subset: "set (dropWhile P s) \<subseteq> set s"
  by (auto dest: set_dropWhileD)

lemma set_sub_dashes: "set (sub_dashes s) \<subseteq> set s"
proof (induction s rule: sub_dashes.induct)
  case 1
  show ?case by simp
next
  case (2 c s)
  show ?case
  proof (cases "c = CHR ''-''")
    case True
    from 2(1)[OF True] set_dropWhile_subset[of "\<lambda>x. x = CHR ''-''" s]
    have "set (sub_dashes (dropWhile (\<lambda>x. x = CHR ''-'') s)) \<subseteq> set s" by (rule subset_trans)
    with True show ?thesis by auto
  next
    case False
    with 2(2)[OF False] show ?thesis by auto
  qed
qed

lemma successively_sub_dashes:
  "successively (\<lambda>a b. \<not> (a = CHR ''-'' \<and> b = CHR ''-'')) (sub_dashes s)"
proof (induction s rule: sub_dashes.induct)
  case 1
  show ?case by simp
next
  case (2 c s)
  show ?case
  proof (cases "c = CHR ''-''")
    case True
    let ?r = "dropWhile (\<lambda>x. x = CHR ''-'') s"
    have "?r = [] \<or> hd ?r \<noteq> CHR ''-''"
      using hd_dropWhile[of "\<lambda>x. x = CHR ''-''" s] by blast
    then have "sub_dashes ?r = [] \<or> hd (sub_dashes ?r) \<noteq> CHR ''-''"
      by (auto simp: hd_sub_dashes sub_dashes_Nil_iff)
    with 2(1)[OF True] True show ?thesis
      by (auto simp: successively_Cons)
  next
    case False
    with 2(2)[OF False] show ?thesis by (auto simp: successively_Cons)
  qed
qed

lemma sub_dashes_fixed:
  "successively (\<lambda>a b. \<not> (a = CHR ''-'' \<and> b = CHR ''-'')) s \<Longrightarrow> sub_dashes s = s"
proof (induction s rule: sub_dashes.induct)
  case 1
  show ?case by simp
next
  case (2 c s)
  show ?case
  proof (cases "c = CHR ''-''")
    case True
    with 2(3) have "s = [] \<or> hd s \<noteq> CHR ''-''" and t: "successively (\<lambda>a b. \<not> (a = CHR ''-'' \<and> b = CHR ''-'')) s"
      by (auto simp: successively_Cons)
    then have d: "dropWhile (\<lambda>x. x = CHR ''-'') s = s" by (cases s) auto
    with 2(1)[OF True] t True show ?thesis by simp
  next
    case False
    with 2(3) have "successively (\<lambda>a b. \<not> (a = CHR ''-'' \<and> b = CHR ''-'')) s"
      by (auto simp: successively_Cons)
    with 2(2)[OF False] False show ?thesis by simp
  qed
qed

lemma successively_dropWhile:
  "successively P s \<Longrightarrow> successively P (dropWhile Q s)"
  by (metis successively_append_iff takeWhile_dropWhile_id)

lemma successively_take:
  "successively P s \<Longrightarrow> successively P (take n s)"
  by (metis successively_append_iff append_take_drop_id)

lemma no_double_rev:
  "successively (\<lambda>a b. \<not> (a = d \<and> b = d)) (rev s) = successively (\<lambda>a b. \<not> (a = d \<and> b = d)) s"
proof -
  have "(\<lambda>x y. \<not> (y = d \<and> x = d)) = (\<lambda>a b. \<not> (a = d \<and> b = d))"
    by (intro ext) blast
  then show ?thesis by (simp only: successively_rev)
qed

lemma successively_rstrip:
  assumes "successively (\<lambda>a b. \<not> (a = CHR ''-'' \<and> b = CHR ''-'')) s"
  shows "successively (\<lambda>a b. \<not> (a = CHR ''-'' \<and> b = CHR ''-'')) (rstrip_char c s)"
proof -
  have "successively (\<lambda>a b. \<not> (a = CHR ''-'' \<and> b = CHR ''-'')) (rev s)"
    using assms by (simp only: no_double_rev)
  then have "successively (\<lambda>a b. \<not> (a = CHR ''-'' \<and> b = CHR ''-'')) (dropWhile (\<lambda>x. x = c) (rev s))"
    by (rule successively_dropWhile)
  then show ?thesis by (simp only: rstrip_char_def no_double_rev)
qed

lemma set_rstrip: "set (rstrip_char c s) \<subseteq> set s"
  unfolding rstrip_char_def using set_dropWhileD[of _ "\<lambda>x. x = c" "rev s"] by auto

lemma rstrip_last: "rstrip_char c s = [] \<or> last (rstrip_char c s) \<noteq> c"
  unfolding rstrip_char_def using hd_dropWhile[of "\<lambda>x. x = c" "rev s"]
  by (auto simp: last_rev)

lemma rstrip_hd: "s \<noteq> [] \<Longrightarrow> hd s \<noteq> c \<Longrightarrow> rstrip_char c s \<noteq> [] \<and> hd (rstrip_char c s) = hd s"
proof -
  assume s: "s \<noteq> []" "hd s \<noteq> c"
  let ?d = "dropWhile (\<lambda>x. x = c) (rev s)"
  have "last (rev s) = hd s" using s by (simp add: last_rev)
  then have "\<not> (\<forall>x\<in>set (rev s). x = c)" using s
    by (metis last_in_set rev_is_Nil_conv)
  then have ne: "?d \<noteq> []" by simp
  then have "last ?d = last (rev s)"
    by (metis append_is_Nil_conv last_appendR takeWhile_dropWhile_id)
  with ne s show ?thesis by (simp add: rstrip_char_def hd_rev last_rev)
qed

lemma rstrip_fixed: "s = [] \<or> last s \<noteq> c \<Longrightarrow> rstrip_char c s = s"
proof (cases "s = []")
  case True then show ?thesis by (simp add: rstrip_char_def)
next
  case False
  assume "s = [] \<or> last s \<noteq> c"
  with False have "hd (rev s) \<noteq> c" by (simp add: hd_rev)
  then have "dropWhile (\<lambda>x. x = c) (rev s) = rev s" using False by (cases "rev s") auto
  then show ?thesis by (simp add: rstrip_char_def)
qed

lemma strip_char_ends:
  "strip_char c s = [] \<or> (hd (strip_char c s) \<noteq> c \<and> last (strip_char c s) \<noteq> c)"
proof (cases "dropWhile (\<lambda>x. x = c) s = []")
  case True
  then show ?thesis by (simp only: strip_char_def rstrip_char_def rev.simps dropWhile.simps simp_thms)
next
  case False
  then have "hd (dropWhile (\<lambda>x. x = c) s) \<noteq> c" using hd_dropWhile[of "\<lambda>x. x = c" s] by blast
  from rstrip_hd[OF False this] rstrip_last[of c "dropWhile (\<lambda>x. x = c) s"] this
  show ?thesis by (simp only: strip_char_def) metis
qed

lemma strip_char_fixed:
  assumes "s = [] \<or> (hd s \<noteq> c \<and> last s \<noteq> c)"
  shows "strip_char c s = s"
proof -
  have "dropWhile (\<lambda>x. x = c) s = s" using assms by (cases s) auto
  moreover have "rstrip_char c s = s" using assms by (intro rstrip_fixed) auto
  ultimately show ?thesis by (simp add: strip_char_def)
qed


lemma rstrip_length: "length (rstrip_char c s) \<le> length s"
  unfolding rstrip_char_def by (metis length_dropWhile_le length_rev)

lemma name_char_dash: "name_char (CHR ''-'')"
  by (simp add: name_char_def)

lemma sanitize_shape:
  fixes x :: string
  defines "r \<equiv> sanitize_azure_name x"
  shows "(\<forall>c\<in>set r. name_char c) \<and>
         successively (\<lambda>a b. \<not> (a = CHR ''-'' \<and> b = CHR ''-'')) r \<and>
         (r = [] \<or> (hd r \<noteq> CHR ''-'' \<and> last r \<noteq> CHR ''-'')) \<and>
         length r \<le> 128"
proof -
  define s4 where "s4 = sub_invalid (replace '' '' ''-'' (replace ''_'' ''-'' (lower x)))"
  define s5 where "s5 = sub_dashes s4"
  define s6 where "s6 = strip_char (CHR ''-'') s5"
  have r: "r = (if length s6 > 128 then rstrip_char (CHR ''-'') (take 128 s6) else s6)"
    by (simp add: r_def sanitize_azure_name_def s4_def s5_def s6_def Let_def)
  have n4: "\<forall>c\<in>set s4. name_char c"
    by (auto simp: s4_def sub_invalid_def name_char_dash)
  have n5: "\<forall>c\<in>set s5. name_char c"
    using n4 set_sub_dashes[of s4] by (auto simp: s5_def)
  have d5: "successively (\<lambda>a b. \<not> (a = CHR ''-'' \<and> b = CHR ''-'')) s5"
    unfolding s5_def by (rule successively_sub_dashes)
  have n6: "\<forall>c\<in>set s6. name_char c"
    using n5 set_rstrip[of "CHR ''-''" "dropWhile (\<lambda>x. x = CHR ''-'') s5"]
      set_dropWhile_subset[of "\<lambda>x. x = CHR ''-''" s5]
    by (auto simp: s6_def strip_char_def)
  have d6: "successively (\<lambda>a b. \<not> (a = CHR ''-'' \<and> b = CHR ''-'')) s6"
    unfolding s6_def strip_char_def
    by (intro successively_rstrip successively_dropWhile d5)
  have e6: "s6 = [] \<or> (hd s6 \<noteq> CHR ''-'' \<and> last s6 \<noteq> CHR ''-'')"
    unfolding s6_def by (rule strip_char_ends)
  show ?thesis
  proof (cases "length s6 > 128")
    case False
    with r have "r = s6" by simp
    with n6 d6 e6 False show ?thesis by simp
  next
    case True
    let ?t = "take 128 s6"
    from True r have rt: "r = rstrip_char (CHR ''-'') ?t" by simp
    from True have s6ne: "s6 \<noteq> []" by auto
    with e6 have h6: "hd s6 \<noteq> CHR ''-''" by simp
    have tne: "?t \<noteq> []" using s6ne by simp
    have ht: "hd ?t = hd s6" using s6ne by (cases s6) simp_all
    have "\<forall>c\<in>set ?t. name_char c" using n6 by (auto dest: in_set_takeD)
    then have a: "\<forall>c\<in>set r. name_char c"
      using set_rstrip[of "CHR ''-''" ?t] by (auto simp: rt)
    have b: "successively (\<lambda>a b. \<not> (a = CHR ''-'' \<and> b = CHR ''-'')) r"
      unfolding rt by (intro successively_rstrip successively_take d6)
    have c: "r \<noteq> [] \<and> hd r = hd ?t"
      unfolding rt using tne ht h6 by (intro rstrip_hd) simp_all
    have d: "r = [] \<or> last r \<noteq> CHR ''-''"
      unfolding rt by (rule rstrip_last)
    have e: "length r \<le> 128"
      using rstrip_length[of "CHR ''-''" ?t] by (simp add: rt)
    from a b c d e ht h6 show ?thesis by simp
  qed
qed

lemma sanitize_fixed:
  assumes "\<forall>c\<in>set r. name_char c"
    and "successively (\<lambda>a b. \<not> (a = CHR ''-'' \<and> b = CHR ''-'')) r"
    and "r = [] \<or> (hd r \<noteq> CHR ''-'' \<and> last r \<noteq> CHR ''-'')"
    and "length r \<le> 128"
  shows "sanitize_azure_name r = r"
proof -
  have 1: "lower r = r"
    unfolding lower_def using assms(1) by (intro map_idI lower_name_char) simp
  have 2: "replace ''_'' ''-'' r = r"
    unfolding replace_char using assms(1) name_char_not_underscore by (intro map_idI) auto
  have 3: "replace '' '' ''-'' r = r"
    unfolding replace_char using assms(1) name_char_not_underscore by (intro map_idI) auto
  have 4: "sub_invalid r = r"
    unfolding sub_invalid_def using assms(1) by (intro map_idI) simp
  have 5: "sub_dashes r = r"
    using assms(2) by (rule sub_dashes_fixed)
  have 6: "strip_char (CHR ''-'') r = r"
    using assms(3) by (rule strip_char_fixed)
  show ?thesis
    using assms(4) by (simp add: sanitize_azure_name_def 1 2 3 4 5 6 Let_def)
qed

text \<open>
  Claim C4. Sanitizing is idempotent: for every input \<open>x\<close>,
  \<open>sanitize_azure_name (sanitize_azure_name x) = sanitize_azure_name x\<close>. The result of
  one pass has only characters of \<open>[a-z0-9-]\<close>, no two dashes in a row, no dash at
  either end and at most 128 characters, and every step of the function leaves such a
  name as it is.
\<close>

theorem sanitize_azure_name_idempotent:
  "sanitize_azure_name (sanitize_azure_name x) = sanitize_azure_name x"
  using sanitize_shape[of x] by (intro sanitize_fixed) simp_all

section \<open>Verification: index document ids\<close>

lemma digit_char_inj: "a < 10 \<Longrightarrow> b < 10 \<Longrightarrow> digit_char a = digit_char b \<Longrightarrow> a = b"
proof -
  assume a: "a < 10" "b < 10" "digit_char a = digit_char b"
  then have "(of_char (char_of (48 + a)) :: nat) = of_char (char_of (48 + b))"
    by (simp add: digit_char_def)
  then have "(48 + a) mod 256 = (48 + b) mod 256" by (simp only: of_char_of)
  with a(1,2) show "a = b" by simp
qed

lemma digit_char_not_underscore: "d < 10 \<Longrightarrow> digit_char d \<noteq> CHR ''_''"
proof
  assume d: "d < 10" "digit_char d = CHR ''_''"
  then have "(of_char (char_of (48 + d)) :: nat) = of_char (CHR ''_'')"
    by (simp add: digit_char_def)
  then have "(48 + d) mod 256 = 95" by (simp add: of_char_of)
  with d(1) show False by simp
qed

lemma str_nat_not_Nil: "str_nat n \<noteq> []"
  by (subst str_nat.simps) simp

lemma str_nat_no_underscore: "CHR ''_'' \<notin> set (str_nat n)"
proof (induction n rule: str_nat.induct)
  case (1 n)
  show ?case
  proof (cases "n < 10")
    case True
    then show ?thesis
      using digit_char_not_underscore[of n] by (subst str_nat.simps) auto
  next
    case False
    have "n mod 10 < 10" by simp
    from digit_char_not_underscore[OF this] 1[OF False] False show ?thesis
      by (subst str_nat.simps) auto
  qed
qed

lemma str_nat_inj: "str_nat m = str_nat n \<Longrightarrow> m = n"
proof (induction m arbitrary: n rule: str_nat.induct)
  case (1 m)
  show ?case
  proof (cases "m < 10")
    case m: True
    show ?thesis
    proof (cases "n < 10")
      case True
      with m 1(2) have "digit_char m = digit_char n"
        by (simp add: str_nat.simps[of m] str_nat.simps[of n])
      with m True show ?thesis by (rule digit_char_inj)
    next
      case False
      with m 1(2) have "[digit_char m] = str_nat (n div 10) @ [digit_char (n mod 10)]"
        by (simp add: str_nat.simps[of m] str_nat.simps[of n])
      then have "str_nat (n div 10) = []" by simp
      with str_nat_not_Nil show ?thesis by blast
    qed
  next
    case m: False
    show ?thesis
    proof (cases "n < 10")
      case True
      with m 1(2) have "str_nat (m div 10) @ [digit_char (m mod 10)] = [digit_char n]"
        by (simp add: str_nat.simps[of m] str_nat.simps[of n])
      then have "str_nat (m div 10) = []" by simp
      with str_nat_not_Nil show ?thesis by blast
    next
      case False
      with m 1(2) have "str_nat (m div 10) @ [digit_char (m mod 10)]
                        = str_nat (n div 10) @ [digit_char (n mod 10)]"
        by (simp add: str_nat.simps[of m] str_nat.simps[of n])
      then have e: "str_nat (m div 10) = str_nat (n div 10)" "digit_char (m mod 10) = digit_char (n mod 10)"
        by simp_all
      from 1(1)[OF m e(1)] have "m div 10 = n div 10" .
      moreover have "m mod 10 = n mod 10"
        using e(2) by (intro digit_char_inj) simp_all
      ultimately show ?thesis by (metis div_mult_mod_eq)
    qed
  qed
qed

lemma takeWhile_before_sep:
  assumes "x \<notin> set d"
  shows "takeWhile (\<lambda>c. c \<noteq> x) (d @ x # a) = d"
proof -
  have "takeWhile (\<lambda>c. c \<noteq> x) (d @ x # a) = takeWhile (\<lambda>c. c \<noteq> x) d"
    by (rule takeWhile_tail) simp
  also have "\<dots> = d" using assms by (auto simp: takeWhile_eq_all_conv)
  finally show ?thesis .
qed

lemma split_last_underscore:
  assumes "CHR ''_'' \<notin> set d1" and "CHR ''_'' \<notin> set d2"
  shows "a1 @ CHR ''_'' # d1 = a2 @ CHR ''_'' # d2 \<longleftrightarrow> a1 = a2 \<and> d1 = d2"
proof
  assume "a1 @ CHR ''_'' # d1 = a2 @ CHR ''_'' # d2"
  then have "rev (a1 @ CHR ''_'' # d1) = rev (a2 @ CHR ''_'' # d2)" by (simp only:)
  then have e: "rev d1 @ CHR ''_'' # rev a1 = rev d2 @ CHR ''_'' # rev a2" by simp
  have "rev d1 = takeWhile (\<lambda>c. c \<noteq> CHR ''_'') (rev d1 @ CHR ''_'' # rev a1)"
    using assms(1) by (simp add: takeWhile_before_sep)
  also have "\<dots> = takeWhile (\<lambda>c. c \<noteq> CHR ''_'') (rev d2 @ CHR ''_'' # rev a2)"
    by (simp only: e)
  also have "\<dots> = rev d2"
    using assms(2) by (simp add: takeWhile_before_sep)
  finally have d: "d1 = d2" by simp
  with e show "a1 = a2 \<and> d1 = d2" by simp
qed simp

lemma suffixed_id_eq:
  "p @ s1 @ ''_'' @ str_nat i1 = p @ s2 @ ''_'' @ str_nat i2 \<longleftrightarrow> s1 = s2 \<and> i1 = i2"
proof -
  have "p @ s1 @ ''_'' @ str_nat i1 = p @ s2 @ ''_'' @ str_nat i2
        \<longleftrightarrow> s1 @ CHR ''_'' # str_nat i1 = s2 @ CHR ''_'' # str_nat i2" by simp
  also have "\<dots> \<longleftrightarrow> s1 = s2 \<and> str_nat i1 = str_nat i2"
    by (rule split_last_underscore) (rule str_nat_no_underscore)+
  also have "\<dots> \<longleftrightarrow> s1 = s2 \<and> i1 = i2" using str_nat_inj by blast
  finally show ?thesis .
qed

text \<open>
  How far the ids tell sources apart. The id is a function of the tenant id, the source
  name and the chunk ordinal alone. Two file names of one tenant get the same id exactly
  when the ordinals are equal and the names are equal after the substitution of \<open>.\<close> by
  \<open>_\<close>; two URLs of one tenant get the same id exactly when the ordinals are equal and
  the URLs are equal after the substitution of \<open>://\<close>, \<open>/\<close> and \<open>.\<close> by \<open>_\<close>.
\<close>

lemma document_id_equal_iff:
  "(file_document_id org_id f1 i1 = file_document_id org_id f2 i2
      \<longleftrightarrow> replace ''.'' ''_'' f1 = replace ''.'' ''_'' f2 \<and> i1 = i2)
   \<and> (web_document_id org_id u1 i1 = web_document_id org_id u2 i2
      \<longleftrightarrow> replace ''.'' ''_'' (replace ''/'' ''_'' (replace ''://'' ''_'' u1))
          = replace ''.'' ''_'' (replace ''/'' ''_'' (replace ''://'' ''_'' u2)) \<and> i1 = i2)"
proof
  show "file_document_id org_id f1 i1 = file_document_id org_id f2 i2
      \<longleftrightarrow> replace ''.'' ''_'' f1 = replace ''.'' ''_'' f2 \<and> i1 = i2"
    unfolding file_document_id_def
    using suffixed_id_eq[of "sanitize_azure_name org_id @ ''_''"] by simp
  show "web_document_id org_id u1 i1 = web_document_id org_id u2 i2
      \<longleftrightarrow> replace ''.'' ''_'' (replace ''/'' ''_'' (replace ''://'' ''_'' u1))
          = replace ''.'' ''_'' (replace ''/'' ''_'' (replace ''://'' ''_'' u2)) \<and> i1 = i2"
    unfolding web_document_id_def
    using suffixed_id_eq[of "sanitize_azure_name org_id @ ''_web_''"] by simp
qed

text \<open>
  Claim C5 says that the ids are unique keys: two distinct (source name, chunk ordinal)
  pairs of one tenant never get the same id. The code gives distinct sources the same id,
  because the substitution is not injective and the two ingestion paths share one id
  space: in the tenant \<open>org\<close>, the files \<open>a.b.txt\<close> and \<open>a_b.txt\<close> get the same id
  for chunk 0; so do the URLs \<open>http://a.b/c\<close> and \<open>http://a/b.c\<close>; and so do the file
  \<open>web_a.txt\<close> and the URL \<open>a.txt\<close>. The id is the key of the index, and documents are
  written with merge-or-upload, so of two sources with the same ids the one ingested later
  overwrites the chunks of the other.
\<close>

theorem document_id_collision:
  "''a.b.txt'' \<noteq> ''a_b.txt'' \<and>
   file_document_id ''org'' ''a.b.txt'' 0 = ''org_a_b_txt_0'' \<and>
   file_document_id ''org'' ''a_b.txt'' 0 = ''org_a_b_txt_0'' \<and>
   ''http://a.b/c'' \<noteq> ''http://a/b.c'' \<and>
   web_document_id ''org'' ''http://a.b/c'' 0 = ''org_web_http_a_b_c_0'' \<and>
   web_document_id ''org'' ''http://a/b.c'' 0 = ''org_web_http_a_b_c_0'' \<and>
   ''web_a.txt'' \<noteq> ''a.txt'' \<and>
   file_document_id ''org'' ''web_a.txt'' 0 = ''org_web_a_txt_0'' \<and>
   web_document_id ''org'' ''a.txt'' 0 = ''org_web_a_txt_0''"
  by code_simp

section \<open>Verification: retrieval\<close>

lemma perform_vector_search_calls:
  assumes "perform_vector_search env org_id query k w = (Inr results, w1)"
  shows "\<exists>vector. new_calls w w1 =
           [EmbeddingsCreate query,
            IndexSearch (sanitize_azure_name org_id) vector k (''organization_id eq '' @ quoted org_id)]"
  using assms
  by (auto simp: perform_vector_search_def generate_embeddings_def get_search_client_def
        emit_def new_calls_def Let_def split: sum.splits if_splits prod.splits)

text \<open>
  Claim C6. When the similarity search returns no result, \<open>search_documents\<close> returns
  the fixed message that it could not find relevant information in the documents of the
  organization, and the calls it has made hold no call to the generation service: the
  world it returns is the one the search left.
\<close>

theorem search_documents_no_results:
  assumes "perform_vector_search env org_id query k w = (Inr [], w1)"
  shows "search_documents env org_id query k w =
           (Inr (''I couldn't find any relevant information in organization ''
                 @ quoted org_id @ '' documents.''), w1)
         \<and> filter is_generation_call (new_calls w w1) = []"
proof -
  from perform_vector_search_calls[OF assms]
  have "filter is_generation_call (new_calls w w1) = []" by auto
  with assms show ?thesis by (simp add: search_documents_def)
qed

theorem search_documents_no_results_witness:
  "search_documents demo_env ''acme'' ''unrelated query'' 3 demo_world =
     (Inr ''I couldn't find any relevant information in organization 'acme' documents.'',
      demo_world\<lparr>calls :=
        [EmbeddingsCreate ''unrelated query'',
         IndexSearch ''acme'' 15 3 (''organization_id eq '' @ quoted ''acme'')]\<rparr>)"
proof -
  have "perform_vector_search demo_env ''acme'' ''unrelated query'' 3 demo_world =
     (Inr [], demo_world\<lparr>calls :=
        [EmbeddingsCreate ''unrelated query'',
         IndexSearch ''acme'' 15 3 (''organization_id eq '' @ quoted ''acme'')]\<rparr>)"
    by code_simp
  from search_documents_no_results[OF this] show ?thesis by (simp add: quoted_def)

qed

section \<open>Verification: the record store\<close>

lemma update_one_fresh:
  assumes "\<forall>x\<in>set xs. \<not> matches x" and "matches (k0, d0)"
  shows "update_one matches u (xs @ [(k0, d0)]) = (xs @ [(k0, u d0)], u d0 \<noteq> d0)"
  using assms by (induction xs) auto

lemma batch_documents_world:
  "KnowledgeDocument_create_batch_documents env sid org ds w = (docs, w') \<Longrightarrow>
     w' = w\<lparr>ticks := ticks w + length ds\<rparr> \<and> length docs = length ds"
proof (induction ds arbitrary: w docs w')
  case Nil
  then show ?case by simp
next
  case (Cons d ds)
  let ?w1 = "w\<lparr>ticks := Suc (ticks w)\<rparr>"
  obtain rest w2 where r: "KnowledgeDocument_create_batch_documents env sid org ds ?w1 = (rest, w2)"
    by (cases "KnowledgeDocument_create_batch_documents env sid org ds ?w1")
  from Cons.IH[OF r] have w2: "w2 = ?w1\<lparr>ticks := ticks ?w1 + length ds\<rparr>" "length rest = length ds"
    by simp_all
  from Cons.prems r have "w' = w2" "length docs = Suc (length rest)"
    by (auto simp: KnowledgeDocument_create_document_def utcnow_def)
  with w2 show ?case by simp
qed

lemma create_documents_batch_fault:
  assumes "mongo_fault env InsertMany = Some e"
  shows "create_documents_batch env sid org ds w = (Inl e, w\<lparr>ticks := ticks w + length ds\<rparr>)"
proof -
  obtain docs w' where b: "KnowledgeDocument_create_batch_documents env sid org ds w = (docs, w')"
    by (cases "KnowledgeDocument_create_batch_documents env sid org ds w")
  from batch_documents_world[OF b] b assms show ?thesis
    by (simp add: create_documents_batch_def)
qed


lemma update_one_by_id:
  assumes "sid \<notin> fst ` set xs" and "Q d0"
  shows "update_one (\<lambda>(oid, d). oid = sid \<and> Q d) u (xs @ [(sid, d0)])
         = (xs @ [(sid, u d0)], u d0 \<noteq> d0)"
  using assms by (intro update_one_fresh) (auto simp: image_iff)

lemma update_status_processing:
  assumes "mongo_fault env (UpdateOne ''PROCESSING'') = None"
    and "sid \<notin> fst ` set srcs" and "knowledge_sources w = srcs @ [(sid, d)]"
    and "ks_organizationId d = org"
  shows "update_knowledge_source_status env sid ''PROCESSING'' (Some org) None None None w =
     (Inr (d\<lparr>ks_status := ''PROCESSING'', ks_updatedAt := utc env (ticks w),
              ks_processStartedAt := Some (utc env (Suc (ticks w)))\<rparr> \<noteq> d),
      w\<lparr>ticks := Suc (Suc (ticks w)),
        knowledge_sources := srcs @
          [(sid, d\<lparr>ks_status := ''PROCESSING'', ks_updatedAt := utc env (ticks w),
                    ks_processStartedAt := Some (utc env (Suc (ticks w)))\<rparr>)]\<rparr>)"
  using assms
  by (simp add: update_knowledge_source_status_def utcnow_def Let_def update_one_by_id)

lemma update_status_failed:
  assumes "mongo_fault env (UpdateOne ''FAILED'') = None"
    and "sid \<notin> fst ` set srcs" and "knowledge_sources w = srcs @ [(sid, d)]"
    and "ks_organizationId d = org"
  shows "update_knowledge_source_status env sid ''FAILED'' (Some org) (Some m) (Some p) (Some f) w =
     (Inr (d\<lparr>ks_status := ''FAILED'', ks_updatedAt := utc env (ticks w),
              ks_errorMessage := Some m, ks_documentsProcessed := p, ks_documentsFailed := f\<rparr> \<noteq> d),
      w\<lparr>ticks := Suc (ticks w),
        knowledge_sources := srcs @
          [(sid, d\<lparr>ks_status := ''FAILED'', ks_updatedAt := utc env (ticks w),
                    ks_errorMessage := Some m, ks_documentsProcessed := p,
                    ks_documentsFailed := f\<rparr>)]\<rparr>)"
  using assms
  by (simp add: update_knowledge_source_status_def utcnow_def Let_def update_one_by_id)

lemma update_status_fault:
  assumes "mongo_fault env (UpdateOne st) = Some e"
  shows "\<exists>n. update_knowledge_source_status env sid st org err dp df w =
           (Inl e, w\<lparr>ticks := ticks w + n\<rparr>)"
proof (cases "st = ''PROCESSING'' \<or> st = ''COMPLETED''")
  case True
  then have "update_knowledge_source_status env sid st org err dp df w =
           (Inl e, w\<lparr>ticks := ticks w + 2\<rparr>)"
    using assms by (auto simp: update_knowledge_source_status_def utcnow_def Let_def)
  then show ?thesis by blast
next
  case False
  then have "update_knowledge_source_status env sid st org err dp df w =
           (Inl e, w\<lparr>ticks := ticks w + 1\<rparr>)"
    using assms by (auto simp: update_knowledge_source_status_def utcnow_def Let_def)
  then show ?thesis by blast
qed


lemma create_knowledge_source_ok:
  assumes "mongo_fault env InsertOne = None"
  shows "create_knowledge_source env org name descr st cfg w =
           (Inr (object_id env (oids w)),
            w\<lparr>calls := calls w @ [Print (''Created knowledge source: '' @ object_id env (oids w))],
              knowledge_sources := knowledge_sources w @
                [(object_id env (oids w),
                  \<lparr>ks_createdAt = utc env (ticks w),
                   ks_updatedAt = utc env (ticks w),
                   ks_organizationId = org,
                   ks_name = name,
                   ks_description = descr,
                   ks_type = st,
                   ks_status = ''PENDING'',
                   ks_configuration = (case cfg of None \<Rightarrow> [] | Some c \<Rightarrow> c),
                   ks_lastProcessedAt = None,
                   ks_processStartedAt = None,
                   ks_errorMessage = None,
                   ks_retryCount = 0,
                   ks_documentsProcessed = 0,
                   ks_documentsFailed = 0\<rparr>)],
              ticks := Suc (ticks w),
              oids := Suc (oids w)\<rparr>)"
  using assms
  by (simp add: create_knowledge_source_def KnowledgeSource_create_document_def utcnow_def
      print_def emit_def Let_def)

text \<open>
  Claim C8, as amended. When the creation of the Knowledge Source and its update to
  \<open>PROCESSING\<close> go through and the insertion of the Knowledge Documents raises \<open>e\<close>,
  \<open>process_file_batch\<close> updates the source to \<open>FAILED\<close>; if that update goes through,
  the source is \<open>FAILED\<close> with the message of \<open>e\<close>, zero documents processed and the
  whole batch failed, and \<open>e\<close> is raised again; if that update raises \<open>e'\<close> itself,
  the source stays \<open>PROCESSING\<close> and it is \<open>e'\<close> that reaches the caller. In both
  cases no document is stored. The id of the new source is taken to be fresh.
\<close>

theorem process_file_batch_insertion_fails:
  assumes "mongo_fault env InsertOne = None"
    and "mongo_fault env (UpdateOne ''PROCESSING'') = None"
    and "mongo_fault env InsertMany = Some e"
    and "object_id env (oids w) \<notin> fst ` set (knowledge_sources w)"
  shows "(mongo_fault env (UpdateOne ''FAILED'') = None \<longrightarrow>
           (\<exists>src w'. process_file_batch env organization_id source_name file_data description
                        configuration w = (Inl e, w')
              \<and> knowledge_sources w' = knowledge_sources w @ [(object_id env (oids w), src)]
              \<and> ks_status src = ''FAILED'' \<and> ks_errorMessage src = Some (exn_str e)
              \<and> ks_documentsProcessed src = 0
              \<and> ks_documentsFailed src = int (length file_data)
              \<and> knowledge_documents w' = knowledge_documents w))
       \<and> (\<forall>e'. mongo_fault env (UpdateOne ''FAILED'') = Some e' \<longrightarrow>
           (\<exists>src w'. process_file_batch env organization_id source_name file_data description
                        configuration w = (Inl e', w')
              \<and> knowledge_sources w' = knowledge_sources w @ [(object_id env (oids w), src)]
              \<and> ks_status src = ''PROCESSING''
              \<and> knowledge_documents w' = knowledge_documents w))"
proof -
  define sid where "sid = object_id env (oids w)"
  obtain d0 w1 where
    c: "create_knowledge_source env organization_id source_name description ''DOCUMENT''
          configuration w = (Inr sid, w1)"
    and w1: "knowledge_sources w1 = knowledge_sources w @ [(sid, d0)]"
            "knowledge_documents w1 = knowledge_documents w"
    and d0: "ks_organizationId d0 = organization_id"
    using create_knowledge_source_ok[OF assms(1), of organization_id source_name description
        "''DOCUMENT''" configuration w]
    by (simp add: sid_def)
  have fresh: "sid \<notin> fst ` set (knowledge_sources w)" using assms(4) by (simp add: sid_def)
  obtain m1 d1 w2 where
    p: "update_knowledge_source_status env sid ''PROCESSING'' (Some organization_id)
          None None None w1 = (Inr m1, w2)"
    and w2: "knowledge_sources w2 = knowledge_sources w @ [(sid, d1)]"
            "knowledge_documents w2 = knowledge_documents w"
    and d1: "ks_organizationId d1 = organization_id" "ks_status d1 = ''PROCESSING''"
    using update_status_processing[OF assms(2) fresh w1(1) d0] w1(2) d0
    by simp
  define w3 where "w3 = w2\<lparr>ticks := ticks w2 + length file_data\<rparr>"
  have i: "create_documents_batch env sid organization_id file_data w2 = (Inl e, w3)"
    unfolding w3_def by (rule create_documents_batch_fault[OF assms(3)])
  have w3: "knowledge_sources w3 = knowledge_sources w @ [(sid, d1)]"
           "knowledge_documents w3 = knowledge_documents w"
    using w2 by (simp_all add: w3_def)
  have pfb: "process_file_batch env organization_id source_name file_data description
               configuration w =
             (case update_knowledge_source_status env sid ''FAILED'' (Some organization_id)
                     (Some (exn_str e)) (Some 0) (Some (int (length file_data))) w3 of
                (Inl e', w6) \<Rightarrow> (Inl e', w6)
              | (Inr _, w6) \<Rightarrow> (Inl e, w6))"
    by (simp add: process_file_batch_def c p i)
  show ?thesis
  proof (intro conjI impI allI)
    assume nf: "mongo_fault env (UpdateOne ''FAILED'') = None"
    from update_status_failed[OF nf fresh w3(1) d1(1), of "exn_str e" 0 "int (length file_data)"]
    obtain m2 d2 w4 where
      f: "update_knowledge_source_status env sid ''FAILED'' (Some organization_id)
            (Some (exn_str e)) (Some 0) (Some (int (length file_data))) w3 = (Inr m2, w4)"
      and w4: "knowledge_sources w4 = knowledge_sources w @ [(sid, d2)]"
              "knowledge_documents w4 = knowledge_documents w"
      and d2: "ks_status d2 = ''FAILED''" "ks_errorMessage d2 = Some (exn_str e)"
              "ks_documentsProcessed d2 = 0" "ks_documentsFailed d2 = int (length file_data)"
      using w3(2) by simp
    from pfb f have "process_file_batch env organization_id source_name file_data description
               configuration w = (Inl e, w4)" by simp
    with w4 d2 show "\<exists>src w'. process_file_batch env organization_id source_name file_data
                        description configuration w = (Inl e, w')
              \<and> knowledge_sources w' = knowledge_sources w @ [(object_id env (oids w), src)]
              \<and> ks_status src = ''FAILED'' \<and> ks_errorMessage src = Some (exn_str e)
              \<and> ks_documentsProcessed src = 0
              \<and> ks_documentsFailed src = int (length file_data)
              \<and> knowledge_documents w' = knowledge_documents w"
      unfolding sid_def by blast
  next
    fix e'
    assume sf: "mongo_fault env (UpdateOne ''FAILED'') = Some e'"
    from update_status_fault[OF sf, of sid "Some organization_id" "Some (exn_str e)" "Some 0"
        "Some (int (length file_data))" w3]
    obtain n where
      f: "update_knowledge_source_status env sid ''FAILED'' (Some organization_id)
            (Some (exn_str e)) (Some 0) (Some (int (length file_data))) w3
          = (Inl e', w3\<lparr>ticks := ticks w3 + n\<rparr>)"
      by blast
    from pfb f have "process_file_batch env organization_id source_name file_data description
               configuration w = (Inl e', w3\<lparr>ticks := ticks w3 + n\<rparr>)" by simp
    moreover have "knowledge_sources (w3\<lparr>ticks := ticks w3 + n\<rparr>)
                     = knowledge_sources w @ [(sid, d1)]"
      "knowledge_documents (w3\<lparr>ticks := ticks w3 + n\<rparr>) = knowledge_documents w"
      using w3 by simp_all
    ultimately show "\<exists>src w'. process_file_batch env organization_id source_name file_data
                        description configuration w = (Inl e', w')
              \<and> knowledge_sources w' = knowledge_sources w @ [(object_id env (oids w), src)]
              \<and> ks_status src = ''PROCESSING''
              \<and> knowledge_documents w' = knowledge_documents w"
      using d1(2) unfolding sid_def by blast
  qed
qed

theorem process_file_batch_insertion_fails_witness:
  "(\<exists>src w'. process_file_batch demo_env_insert_fails ''acme'' ''batch'' demo_file_data None None
                demo_world = (Inl (OtherError ''insert failed''), w')
      \<and> knowledge_sources w' = [(''oid0'', src)]
      \<and> ks_status src = ''FAILED'' \<and> ks_errorMessage src = Some ''insert failed''
      \<and> ks_documentsProcessed src = 0 \<and> ks_documentsFailed src = 1
      \<and> knowledge_documents w' = [])
   \<and> (\<exists>src w'. process_file_batch demo_env_store_down ''acme'' ''batch'' demo_file_data None None
                demo_world = (Inl (OtherError ''update failed''), w')
      \<and> knowledge_sources w' = [(''oid0'', src)]
      \<and> ks_status src = ''PROCESSING''
      \<and> knowledge_documents w' = [])"
proof -
  have oid: "object_id demo_env (0::nat) = ''oid0''" by code_simp
  have a: "mongo_fault demo_env_insert_fails InsertOne = None"
    "mongo_fault demo_env_insert_fails (UpdateOne ''PROCESSING'') = None"
    "mongo_fault demo_env_insert_fails InsertMany = Some (OtherError ''insert failed'')"
    "object_id demo_env_insert_fails (oids demo_world) \<notin> fst ` set (knowledge_sources demo_world)"
    "mongo_fault demo_env_insert_fails (UpdateOne ''FAILED'') = None"
    by (simp_all add: demo_env_insert_fails_def demo_env_def demo_world_def)
  have b: "mongo_fault demo_env_store_down InsertOne = None"
    "mongo_fault demo_env_store_down (UpdateOne ''PROCESSING'') = None"
    "mongo_fault demo_env_store_down InsertMany = Some (OtherError ''insert failed'')"
    "object_id demo_env_store_down (oids demo_world) \<notin> fst ` set (knowledge_sources demo_world)"
    "mongo_fault demo_env_store_down (UpdateOne ''FAILED'') = Some (OtherError ''update failed'')"
    by (simp_all add: demo_env_store_down_def demo_env_def demo_world_def)
  have c: "object_id demo_env_insert_fails (oids demo_world) = ''oid0''"
    "object_id demo_env_store_down (oids demo_world) = ''oid0''"
    "knowledge_sources demo_world = []" "knowledge_documents demo_world = []"
    "length demo_file_data = 1"
    using oid
    by (simp_all add: demo_env_insert_fails_def demo_env_store_down_def demo_env_def
        demo_world_def demo_file_data_def)
  from process_file_batch_insertion_fails[OF a(1-4), of "''acme''" "''batch''" demo_file_data None None]
       process_file_batch_insertion_fails[OF b(1-4), of "''acme''" "''batch''" demo_file_data None None]
       a(5) b(5) c
  show ?thesis by simp
qed

text \<open>
  Claim C8 as stated fails: when the record store refuses the insertion and then the
  update to \<open>FAILED\<close> as well, the source is left in \<open>PROCESSING\<close> and the caller gets
  the exception of the update, not the one of the insertion.
\<close>

theorem process_file_batch_store_down:
  "mongo_fault demo_env_store_down InsertMany = Some (OtherError ''insert failed'') \<and>
   fst (process_file_batch demo_env_store_down ''acme'' ''batch'' demo_file_data None None demo_world)
     = Inl (OtherError ''update failed'') \<and>
   map (\<lambda>x. ks_status (snd x))
     (knowledge_sources (snd (process_file_batch demo_env_store_down ''acme'' ''batch''
        demo_file_data None None demo_world)))
     = [''PROCESSING'']"
  by code_simp

section \<open>Verification: what the ingestion run changes\<close>

subsection \<open>Worlds that differ by calls only\<close>

lemma only_calls_refl: "only_calls P w w"
proof -
  have "w = w\<lparr>calls := calls w @ [], ticks := ticks w + 0\<rparr>" by simp
  moreover have "list_all P []" by simp
  ultimately show ?thesis unfolding only_calls_def by blast
qed

lemma only_calls_trans:
  assumes "only_calls P w w1" and "only_calls P w1 w2"
  shows "only_calls P w w2"
proof -
  from assms(1) obtain cs n where 1: "w1 = w\<lparr>calls := calls w @ cs, ticks := ticks w + n\<rparr>" "list_all P cs"
    unfolding only_calls_def by blast
  from assms(2) obtain ds m where 2: "w2 = w1\<lparr>calls := calls w1 @ ds, ticks := ticks w1 + m\<rparr>" "list_all P ds"
    unfolding only_calls_def by blast
  have "w2 = w\<lparr>calls := calls w @ (cs @ ds), ticks := ticks w + (n + m)\<rparr>"
    using 1(1) 2(1) by simp
  moreover have "list_all P (cs @ ds)" using 1(2) 2(2) by simp
  ultimately show ?thesis unfolding only_calls_def by blast
qed

lemma only_calls_emit: "P c \<Longrightarrow> only_calls P w (emit c w)"
proof -
  assume "P c"
  then have "list_all P [c]" by simp
  moreover have "emit c w = w\<lparr>calls := calls w @ [c], ticks := ticks w + 0\<rparr>"
    by (simp add: emit_def)
  ultimately show ?thesis unfolding only_calls_def by blast
qed

lemma only_calls_print: "P (Print s) \<Longrightarrow> only_calls P w (print s w)"
  unfolding print_def by (rule only_calls_emit)

lemma only_calls_tick: "only_calls P w (w\<lparr>ticks := Suc (ticks w)\<rparr>)"
proof -
  have "w\<lparr>ticks := Suc (ticks w)\<rparr> = w\<lparr>calls := calls w @ [], ticks := ticks w + 1\<rparr>" by simp
  moreover have "list_all P []" by simp
  ultimately show ?thesis unfolding only_calls_def by blast
qed

lemma only_calls_mono:
  assumes "only_calls P w w'" and "\<And>c. P c \<Longrightarrow> Q c"
  shows "only_calls Q w w'"
  using assms unfolding only_calls_def by (metis list.pred_mono_strong)

lemma only_calls_store:
  assumes "only_calls P w w'"
  shows "knowledge_sources w' = knowledge_sources w"
    and "knowledge_documents w' = knowledge_documents w"
    and "oids w' = oids w"
  using assms unfolding only_calls_def by auto

lemma only_calls_new:
  assumes "only_calls P w w'"
  shows "list_all P (new_calls w w')"
  using assms unfolding only_calls_def new_calls_def by auto

lemma new_calls_no_write:
  assumes "only_calls (\<lambda>c. \<not> is_index_write c) w w'"
  shows "filter is_index_write (new_calls w w') = []"
  using only_calls_new[OF assms] by (simp add: list_all_iff filter_empty_conv)


lemma only_calls_print_after:
  "P (Print s) \<Longrightarrow> only_calls P w w1 \<Longrightarrow> only_calls P w (print s w1)"
  using only_calls_trans[OF _ only_calls_print] by blast

lemma only_calls_emit_after:
  "P c \<Longrightarrow> only_calls P w w1 \<Longrightarrow> only_calls P w (emit c w1)"
  using only_calls_trans[OF _ only_calls_emit] by blast

lemma only_calls_tick_after:
  "only_calls P w w1 \<Longrightarrow> only_calls P w (w1\<lparr>ticks := Suc (ticks w1)\<rparr>)"
  using only_calls_trans[OF _ only_calls_tick] by blast

lemmas only_calls_intros =
  only_calls_refl only_calls_print_after only_calls_emit_after only_calls_tick_after

subsection \<open>What the steps of the ingestion change\<close>

lemma get_container_client_frame:
  assumes "get_container_client env org_id w = (r, w')"
  shows "only_calls (\<lambda>c. \<not> is_index_write c) w w'"
  using assms
  by (auto simp: get_container_client_def Let_def intro!: only_calls_intros
      split: sum.splits option.splits exn.splits)

lemma upload_file_frame:
  assumes "upload_file_to_org_blob env org_id file_path w = (r, w')"
  shows "only_calls (\<lambda>c. \<not> is_index_write c) w w'"
proof (cases "path_exists env file_path")
  case False
  with assms show ?thesis by (auto simp: upload_file_to_org_blob_def intro: only_calls_refl)
next
  case True
  obtain r1 w1 where g: "get_container_client env org_id w = (r1, w1)"
    by (cases "get_container_client env org_id w")
  note f = get_container_client_frame[OF g]
  show ?thesis
  proof (cases r1)
    case (Inl e)
    with assms True g f show ?thesis by (simp add: upload_file_to_org_blob_def Let_def)
  next
    case (Inr container)
    with assms True g f show ?thesis
      by (auto simp: upload_file_to_org_blob_def Let_def intro!: only_calls_intros
          split: option.splits)
  qed
qed

lemma generate_embeddings_frame:
  assumes "generate_embeddings env t w = (r, w')"
  shows "only_calls (\<lambda>c. \<not> is_index_write c) w w'"
  using assms
  by (auto simp: generate_embeddings_def intro!: only_calls_intros split: sum.splits)


lemma process_chunks_frame:
  "process_chunks env org_id safe_org_id filename filepath blob_name ext n_chunks i chunks
       (documents, mongo_documents) w = (r, w') \<Longrightarrow>
   only_calls (\<lambda>c. \<not> is_index_write c) w w' \<and>
   (\<forall>documents' mongo_documents'. r = Inr (documents', mongo_documents') \<longrightarrow>
      (\<forall>dd\<in>set mongo_documents. dd_status dd = None) \<and> length documents = length mongo_documents \<longrightarrow>
      (\<forall>dd\<in>set mongo_documents'. dd_status dd = None) \<and> length documents' = length mongo_documents')"
proof (induction chunks arbitrary: i documents mongo_documents w)
  case Nil
  then show ?case by (auto intro: only_calls_refl)
next
  case (Cons chunk rest)
  show ?case
  proof (cases "strip chunk \<noteq> []")
    case False
    with Cons.prems have "process_chunks env org_id safe_org_id filename filepath blob_name ext
       n_chunks (i + 1) rest (documents, mongo_documents) w = (r, w')" by simp
    from Cons.IH[OF this] show ?thesis .
  next
    case True
    obtain r1 w1 where g: "generate_embeddings env chunk w = (r1, w1)"
      by (cases "generate_embeddings env chunk w")
    note f1 = generate_embeddings_frame[OF g]
    show ?thesis
    proof (cases r1)
      case (Inl e)
      with Cons.prems True g have "r = Inl e" "w' = w1" by simp_all
      with f1 show ?thesis by simp
    next
      case (Inr embedding)
      let ?w2 = "w1\<lparr>ticks := Suc (ticks w1)\<rparr>"
      from Cons.prems True g Inr obtain document mongo_doc where
        rec: "process_chunks env org_id safe_org_id filename filepath blob_name ext n_chunks (i + 1)
                rest (documents @ [document], mongo_documents @ [mongo_doc]) ?w2 = (r, w')"
        and md: "dd_status mongo_doc = None"
        by (simp add: utcnow_def Let_def)
      from Cons.IH[OF rec] have
        f2: "only_calls (\<lambda>c. \<not> is_index_write c) ?w2 w'"
        and inv: "\<forall>documents' mongo_documents'. r = Inr (documents', mongo_documents') \<longrightarrow>
          (\<forall>dd\<in>set (mongo_documents @ [mongo_doc]). dd_status dd = None) \<and>
          length (documents @ [document]) = length (mongo_documents @ [mongo_doc]) \<longrightarrow>
          (\<forall>dd\<in>set mongo_documents'. dd_status dd = None) \<and>
          length documents' = length mongo_documents'"
        by blast+
      have "only_calls (\<lambda>c. \<not> is_index_write c) w w'"
        using only_calls_trans[OF only_calls_tick_after[OF f1] f2] .
      moreover from inv md have "\<forall>documents' mongo_documents'. r = Inr (documents', mongo_documents') \<longrightarrow>
          (\<forall>dd\<in>set mongo_documents. dd_status dd = None) \<and> length documents = length mongo_documents \<longrightarrow>
          (\<forall>dd\<in>set mongo_documents'. dd_status dd = None) \<and> length documents' = length mongo_documents'"
        by auto
      ultimately show ?thesis by blast
    qed
  qed
qed


lemma process_files_frame:
  "process_files env org_id directory_path chunk_size overlap filenames
       (documents, mongo_documents, processed_files) w = Some (r, w') \<Longrightarrow>
   only_calls (\<lambda>c. \<not> is_index_write c) w w' \<and>
   (\<forall>documents' mongo_documents' n. r = Inr (documents', mongo_documents', n) \<longrightarrow>
      (\<forall>dd\<in>set mongo_documents. dd_status dd = None) \<and> length documents = length mongo_documents \<longrightarrow>
      (\<forall>dd\<in>set mongo_documents'. dd_status dd = None) \<and> length documents' = length mongo_documents')"
proof (induction filenames arbitrary: documents mongo_documents processed_files w)
  case Nil
  then show ?case by (auto intro: only_calls_refl)
next
  case (Cons filename rest)
  let ?filepath = "path_join directory_path filename"
  let ?ext = "lower (splitext_ext filename)"
  show ?case
  proof (cases "isdir env ?filepath \<or> ?ext \<notin> set SUPPORTED_EXTENSIONS")
    case True
    with Cons.prems have "process_files env org_id directory_path chunk_size overlap rest
       (documents, mongo_documents, processed_files) w = Some (r, w')" by (simp add: Let_def)
    from Cons.IH[OF this] show ?thesis .
  next
    case False
    let ?w1 = "print (''Processing file: '' @ filename @ '' ('' @ ?ext @ '')'') w"
    have f1: "only_calls (\<lambda>c. \<not> is_index_write c) w ?w1"
      by (intro only_calls_intros) simp
    obtain r2 w2 where u: "upload_file_to_org_blob env org_id ?filepath ?w1 = (r2, w2)"
      by (cases "upload_file_to_org_blob env org_id ?filepath ?w1")
    have f2: "only_calls (\<lambda>c. \<not> is_index_write c) w w2"
      using only_calls_trans[OF f1 upload_file_frame[OF u]] .
    show ?thesis
    proof (cases r2)
      case (Inl e)
      with Cons.prems False u have "r = Inl e" "w' = w2" by (simp_all add: Let_def)
      with f2 show ?thesis by simp
    next
      case (Inr blob_name)
      let ?content = "extract_text_from_file env ?filepath"
      show ?thesis
      proof (cases "strip ?content = []")
        case True
        let ?w3 = "print (''Warning: No content extracted from '' @ filename) w2"
        from Cons.prems False u Inr True
        have rec: "process_files env org_id directory_path chunk_size overlap rest
           (documents, mongo_documents, processed_files) ?w3 = Some (r, w')"
          by (simp add: Let_def)
        have f3: "only_calls (\<lambda>c. \<not> is_index_write c) w ?w3"
          using f2 by (intro only_calls_intros) simp_all
        from Cons.IH[OF rec] have "only_calls (\<lambda>c. \<not> is_index_write c) ?w3 w'" by (rule conjunct1)
        from only_calls_trans[OF f3 this] conjunct2[OF Cons.IH[OF rec]] show ?thesis by (rule conjI)
      next
        case ne: False
        have "chunk_text ?content chunk_size overlap \<noteq> None"
        proof
          assume "chunk_text ?content chunk_size overlap = None"
          with Cons.prems False u Inr ne show False by (simp add: Let_def)
        qed
        then obtain chunks where
          ct: "chunk_text ?content chunk_size overlap = Some chunks"
          by blast
        let ?w3 = "print (''File '' @ quoted filename @ '' split into ''
                          @ str_nat (length chunks) @ '' chunks'') w2"
        have f3: "only_calls (\<lambda>c. \<not> is_index_write c) w ?w3"
          using f2 by (intro only_calls_intros) simp_all
        obtain r4 w4 where pc: "process_chunks env org_id (sanitize_azure_name org_id) filename
              ?filepath blob_name ?ext (length chunks) 0 chunks (documents, mongo_documents) ?w3
              = (r4, w4)"
          by (cases "process_chunks env org_id (sanitize_azure_name org_id) filename
              ?filepath blob_name ?ext (length chunks) 0 chunks (documents, mongo_documents) ?w3")
        note pcf = process_chunks_frame[OF pc]
        have f4: "only_calls (\<lambda>c. \<not> is_index_write c) w w4"
          using only_calls_trans[OF f3 conjunct1[OF pcf]] .
        show ?thesis
        proof (cases r4)
          case (Inl e)
          with Cons.prems False u Inr ne ct pc have "r = Inl e" "w' = w4"
            by (simp_all add: Let_def)
          with f4 show ?thesis by simp
        next
          case r4: (Inr acc)
          obtain documents' mongo_documents' where acc: "acc = (documents', mongo_documents')"
            by (cases acc)
          from Cons.prems False u Inr ne ct pc r4 acc
          have rec: "process_files env org_id directory_path chunk_size overlap rest
             (documents', mongo_documents', processed_files + 1) w4 = Some (r, w')"
            by (simp add: Let_def)
          from Cons.IH[OF rec] have "only_calls (\<lambda>c. \<not> is_index_write c) w4 w'" by (rule conjunct1)
          note f5 = only_calls_trans[OF f4 this]
          from conjunct2[OF pcf] r4 acc have inv1:
            "(\<forall>dd\<in>set mongo_documents. dd_status dd = None) \<and> length documents = length mongo_documents \<longrightarrow>
             (\<forall>dd\<in>set mongo_documents'. dd_status dd = None) \<and> length documents' = length mongo_documents'"
            by blast
          from conjunct2[OF Cons.IH[OF rec]] inv1 have
            "\<forall>documents'' mongo_documents'' n. r = Inr (documents'', mongo_documents'', n) \<longrightarrow>
              (\<forall>dd\<in>set mongo_documents. dd_status dd = None) \<and> length documents = length mongo_documents \<longrightarrow>
              (\<forall>dd\<in>set mongo_documents''. dd_status dd = None) \<and> length documents'' = length mongo_documents''"
            by blast
          with f5 show ?thesis by (rule conjI)
        qed
      qed
    qed
  qed
qed

lemma update_status_frame:
  "calls (snd (update_knowledge_source_status env sid st org err dp df w)) = calls w \<and>
   knowledge_documents (snd (update_knowledge_source_status env sid st org err dp df w))
     = knowledge_documents w"
  by (simp add: update_knowledge_source_status_def utcnow_def Let_def
      split: prod.split option.split)

lemma create_knowledge_source_frame:
  "(\<exists>cs. calls (snd (create_knowledge_source env org name descr st cfg w)) = calls w @ cs
        \<and> list_all is_print cs) \<and>
   knowledge_documents (snd (create_knowledge_source env org name descr st cfg w))
     = knowledge_documents w"
  by (simp add: create_knowledge_source_def KnowledgeSource_create_document_def utcnow_def
      print_def emit_def Let_def split: prod.split option.split)

lemma batch_documents_created_as:
  "KnowledgeDocument_create_batch_documents env sid org ds w = (docs, w') \<Longrightarrow>
     list_all2 created_as ds docs"
proof (induction ds arbitrary: w docs w')
  case Nil
  then show ?case by simp
next
  case (Cons d ds)
  let ?w1 = "w\<lparr>ticks := Suc (ticks w)\<rparr>"
  obtain rest w2 where r: "KnowledgeDocument_create_batch_documents env sid org ds ?w1 = (rest, w2)"
    by (cases "KnowledgeDocument_create_batch_documents env sid org ds ?w1")
  from Cons.prems r obtain doc where docs: "docs = doc # rest" and
    doc: "kd_status doc = (case dd_status d of None \<Rightarrow> Some ''COMPLETED'' | Some s \<Rightarrow> s)"
         "kd_processedAt doc = (if kd_status doc = Some ''COMPLETED'' then Some (kd_createdAt doc) else None)"
    by (auto simp: KnowledgeDocument_create_document_def utcnow_def)
  have "created_as d doc"
    using doc by (cases "dd_status d") (simp_all add: created_as_def created_completed_def)
  with Cons.IH[OF r] docs show ?case by simp
qed

lemma create_documents_batch_documents:
  assumes "create_documents_batch env sid org ds w = (r, w')"
  shows "calls w' = calls w \<and>
         (\<exists>new. knowledge_documents w' = knowledge_documents w @ new \<and>
                (new = [] \<or> list_all2 (\<lambda>dd x. created_as dd (snd x)) ds new))"
proof -
  obtain docs w1 where b: "KnowledgeDocument_create_batch_documents env sid org ds w = (docs, w1)"
    by (cases "KnowledgeDocument_create_batch_documents env sid org ds w")
  from batch_documents_world[OF b] have w1: "w1 = w\<lparr>ticks := ticks w + length ds\<rparr>"
    and len: "length docs = length ds" by simp_all
  note ca = batch_documents_created_as[OF b]
  show ?thesis
  proof (cases "mongo_fault env InsertMany")
    case (Some e)
    with assms b w1 have "w' = w1" by (simp add: create_documents_batch_def)
    with w1 show ?thesis by simp
  next
    case None
    let ?ids = "map (\<lambda>i. object_id env (oids w1 + i)) [0..<length docs]"
    from None assms b have w': "w' = w1\<lparr>knowledge_documents := knowledge_documents w1 @ zip ?ids docs,
                       oids := oids w1 + length docs\<rparr>"
      by (simp add: create_documents_batch_def Let_def)
    have "list_all2 (\<lambda>dd x. created_as dd (snd x)) ds (zip ?ids docs)"
      using ca len by (auto simp: list_all2_conv_all_nth)
    with w' w1 show ?thesis by auto
  qed
qed


lemma process_file_batch_frame:
  assumes "process_file_batch env org name fd descr cfg w = (r, w')"
  shows "(\<exists>cs. calls w' = calls w @ cs \<and> list_all is_print cs) \<and>
         (\<exists>new. knowledge_documents w' = knowledge_documents w @ new \<and>
                (new = [] \<or> list_all2 (\<lambda>dd x. created_as dd (snd x)) fd new))"
proof -
  let ?G = "\<lambda>v. (\<exists>cs. calls v = calls w @ cs \<and> list_all is_print cs) \<and>
         (\<exists>new. knowledge_documents v = knowledge_documents w @ new \<and>
                (new = [] \<or> list_all2 (\<lambda>dd x. created_as dd (snd x)) fd new))"
  have upd: "?G v \<Longrightarrow> ?G (snd (update_knowledge_source_status env sid st og err dp df v))"
    for v sid st og err dp df
    using update_status_frame[of env sid st og err dp df v] by simp
  obtain r1 w1 where c: "create_knowledge_source env org name descr ''DOCUMENT'' cfg w = (r1, w1)"
    by (cases "create_knowledge_source env org name descr ''DOCUMENT'' cfg w")
  from create_knowledge_source_frame[of env org name descr "''DOCUMENT''" cfg w] c
  have g1: "?G w1" by simp
  show ?thesis
  proof (cases r1)
    case (Inl e)
    with assms c have "w' = w1" by (simp add: process_file_batch_def)
    with g1 show ?thesis by simp
  next
    case r1: (Inr sid)
    obtain r2 w2 where p: "update_knowledge_source_status env sid ''PROCESSING'' (Some org)
          None None None w1 = (r2, w2)"
      by (cases "update_knowledge_source_status env sid ''PROCESSING'' (Some org) None None None w1")
    from upd[OF g1, of sid "''PROCESSING''" "Some org" None None None] p have g2: "?G w2" by simp
    show ?thesis
    proof (cases r2)
      case (Inl e)
      with assms c r1 p have "w' = w2" by (simp add: process_file_batch_def)
      with g2 show ?thesis by simp
    next
      case r2: (Inr m)
      obtain r3 w3 where i: "create_documents_batch env sid org fd w2 = (r3, w3)"
        by (cases "create_documents_batch env sid org fd w2")
      from create_documents_batch_documents[OF i] obtain new where
        n: "calls w3 = calls w2" "knowledge_documents w3 = knowledge_documents w2 @ new"
           "new = [] \<or> list_all2 (\<lambda>dd x. created_as dd (snd x)) fd new"
        by blast
      have w2_docs: "knowledge_documents w2 = knowledge_documents w"
      proof -
        have "knowledge_documents w1 = knowledge_documents w"
          using create_knowledge_source_frame[of env org name descr "''DOCUMENT''" cfg w] c by simp
        moreover have "knowledge_documents w2 = knowledge_documents w1"
          using update_status_frame[of env sid "''PROCESSING''" "Some org" None None None w1] p
          by simp
        ultimately show ?thesis by simp
      qed
      have g3: "?G w3" using g2 n w2_docs by auto
      show ?thesis
      proof (cases r3)
        case (Inl e)
        obtain r6 w6 where f: "update_knowledge_source_status env sid ''FAILED'' (Some org)
            (Some (exn_str e)) (Some 0) (Some (int (length fd))) w3 = (r6, w6)"
          by (cases "update_knowledge_source_status env sid ''FAILED'' (Some org)
            (Some (exn_str e)) (Some 0) (Some (int (length fd))) w3")
        from upd[OF g3, of sid "''FAILED''" "Some org" "Some (exn_str e)" "Some 0"
            "Some (int (length fd))"] f have g6: "?G w6" by simp
        from assms c r1 p r2 i Inl f have "w' = w6"
          by (cases r6) (simp_all add: process_file_batch_def)
        with g6 show ?thesis by simp
      next
        case r3: (Inr ids)
        obtain r4 w4 where d: "update_knowledge_source_status env sid ''COMPLETED'' (Some org)
            None (Some (int (length ids))) (Some 0) w3 = (r4, w4)"
          by (cases "update_knowledge_source_status env sid ''COMPLETED'' (Some org)
            None (Some (int (length ids))) (Some 0) w3")
        from upd[OF g3, of sid "''COMPLETED''" "Some org" None "Some (int (length ids))" "Some 0"] d
        have g4: "?G w4" by simp
        show ?thesis
        proof (cases r4)
          case (Inl e)
          obtain r6 w6 where f: "update_knowledge_source_status env sid ''FAILED'' (Some org)
              (Some (exn_str e)) (Some 0) (Some (int (length fd))) w4 = (r6, w6)"
            by (cases "update_knowledge_source_status env sid ''FAILED'' (Some org)
              (Some (exn_str e)) (Some 0) (Some (int (length fd))) w4")
          from upd[OF g4, of sid "''FAILED''" "Some org" "Some (exn_str e)" "Some 0"
              "Some (int (length fd))"] f have g6: "?G w6" by simp
          from assms c r1 p r2 i r3 d Inl f have "w' = w6"
            by (cases r6) (simp_all add: process_file_batch_def)
          with g6 show ?thesis by simp
        next
          case (Inr m4)
          let ?msg = "''Successfully processed '' @ str_nat (length ids)
                             @ '' documents for source: '' @ sid"
          from assms c r1 p r2 i r3 d Inr have w': "w' = print ?msg w4"
            by (simp add: process_file_batch_def)
          from g4 obtain cs where cs: "calls w4 = calls w @ cs" "list_all is_print cs" by blast
          have "calls w' = calls w @ (cs @ [Print ?msg])" "list_all is_print (cs @ [Print ?msg])"
            using cs w' by (simp_all add: print_def emit_def)
          moreover have "knowledge_documents w' = knowledge_documents w4"
            using w' by (simp add: print_def emit_def)
          ultimately show ?thesis using g4 by metis
        qed
      qed
    qed
  qed
qed

lemma upload_to_search_frame:
  assumes "upload_to_search env client org_id documents w = (r, w')"
  shows "only_calls (\<lambda>c. True) w w'"
proof (cases "documents = []")
  case True
  with assms show ?thesis
    by (auto simp: upload_to_search_def Let_def intro!: only_calls_intros)
next
  case False
  with assms show ?thesis
    by (auto simp: upload_to_search_def Let_def intro!: only_calls_intros
        split: option.splits exn.splits)
qed

lemma upload_to_search_empty:
  "upload_to_search env client org_id [] w =
     (Inr (), print ''No new documents to upload to Azure Search.'' w)"
  by (simp add: upload_to_search_def Let_def)

lemma upload_to_search_written:
  assumes "upload_to_search env client org_id documents w = (Inr u, w')" and "documents \<noteq> []"
  shows "\<exists>m. index_upload env m client documents = None \<and>
             IndexUpload m client documents \<in> set (new_calls w w')"
  using assms
  by (auto simp: upload_to_search_def Let_def new_calls_def print_def emit_def
      split: option.splits exn.splits)


lemma store_metadata_empty:
  "store_metadata env org_id directory_path chunk_size overlap source_name source_description
     processed_files [] w = print ''No documents to store in MongoDB.'' w"
  by (simp add: store_metadata_def)

lemma store_metadata_failed:
  assumes "mongo_documents \<noteq> []"
    and "process_file_batch env org_id source_name mongo_documents (Some source_description)
           (Some [(''directory_path'', PyStr directory_path),
                  (''chunk_size'', PyInt chunk_size),
                  (''overlap'', PyInt overlap),
                  (''processed_files'', PyInt (int processed_files)),
                  (''total_chunks'', PyInt (int (length mongo_documents))),
                  (''processing_type'', PyStr ''batch_directory'')]) w = (Inl e, w1)"
  shows "store_metadata env org_id directory_path chunk_size overlap source_name
           source_description processed_files mongo_documents w =
         print ''Azure Search documents uploaded successfully, but MongoDB storage failed''
           (print (''Error storing metadata in MongoDB: '' @ exn_str e) w1)"
  using assms by (simp add: store_metadata_def Let_def)

lemma store_metadata_frame:
  assumes "\<forall>dd\<in>set mongo_documents. dd_status dd = None"
  shows "(\<exists>cs. calls (store_metadata env org_id directory_path chunk_size overlap source_name
                  source_description processed_files mongo_documents w) = calls w @ cs
              \<and> list_all is_print cs) \<and>
         (\<exists>new. knowledge_documents (store_metadata env org_id directory_path chunk_size overlap
                  source_name source_description processed_files mongo_documents w)
                = knowledge_documents w @ new
              \<and> list_all (\<lambda>x. created_completed (snd x)) new)"
proof (cases "mongo_documents = []")
  case True
  then show ?thesis by (simp add: store_metadata_empty print_def emit_def)
next
  case False
  let ?cfg = "[(''directory_path'', PyStr directory_path),
               (''chunk_size'', PyInt chunk_size),
               (''overlap'', PyInt overlap),
               (''processed_files'', PyInt (int processed_files)),
               (''total_chunks'', PyInt (int (length mongo_documents))),
               (''processing_type'', PyStr ''batch_directory'')]"
  obtain r w1 where b: "process_file_batch env org_id source_name mongo_documents
      (Some source_description) (Some ?cfg) w = (r, w1)"
    by (cases "process_file_batch env org_id source_name mongo_documents
      (Some source_description) (Some ?cfg) w")
  from process_file_batch_frame[OF b] obtain cs new where
    cs: "calls w1 = calls w @ cs" "list_all is_print cs"
    and new: "knowledge_documents w1 = knowledge_documents w @ new"
             "new = [] \<or> list_all2 (\<lambda>dd x. created_as dd (snd x)) mongo_documents new"
    by blast
  have cc: "list_all (\<lambda>x. created_completed (snd x)) new"
  proof (cases "new = []")
    case True
    then show ?thesis by simp
  next
    case False
    with new(2) have l: "list_all2 (\<lambda>dd x. created_as dd (snd x)) mongo_documents new" by simp
    show ?thesis unfolding list_all_length
    proof (intro allI impI)
      fix i assume i: "i < length new"
      with l have "created_as (mongo_documents ! i) (snd (new ! i))" "mongo_documents ! i \<in> set mongo_documents"
        by (auto simp: list_all2_conv_all_nth)
      with assms show "created_completed (snd (new ! i))" by (simp add: created_as_def)
    qed
  qed
  obtain p1 p2 where st: "store_metadata env org_id directory_path chunk_size overlap source_name
                  source_description processed_files mongo_documents w = print p2 (print p1 w1)"
    using False b by (cases r) (auto simp: store_metadata_def Let_def)
  have "calls (print p2 (print p1 w1)) = calls w @ (cs @ [Print p1, Print p2])"
    "list_all is_print (cs @ [Print p1, Print p2])"
    "knowledge_documents (print p2 (print p1 w1)) = knowledge_documents w @ new"
    using cs new(1) by (simp_all add: print_def emit_def)
  with cc st show ?thesis by metis
qed

lemma upload_succeeds_result:
  assumes "upload_succeeds env org_id file_path"
  shows "\<exists>w'. upload_file_to_org_blob env org_id file_path w = (Inr (basename file_path), w')"
  using assms
  by (auto simp: upload_succeeds_def upload_file_to_org_blob_def get_container_client_def Let_def
      split: option.splits exn.splits)

lemma process_files_blank:
  assumes "\<forall>filename\<in>set filenames. blank_or_skipped env org_id directory_path filename"
  shows "\<exists>w'. process_files env org_id directory_path chunk_size overlap filenames
               (documents, mongo_documents, processed_files) w
             = Some (Inr (documents, mongo_documents, processed_files), w')"
  using assms
proof (induction filenames arbitrary: w)
  case Nil
  show ?case by simp
next
  case (Cons filename rest)
  let ?filepath = "path_join directory_path filename"
  let ?ext = "lower (splitext_ext filename)"
  from Cons.prems have b: "blank_or_skipped env org_id directory_path filename"
    and r: "\<forall>f\<in>set rest. blank_or_skipped env org_id directory_path f" by simp_all
  show ?case
  proof (cases "isdir env ?filepath \<or> ?ext \<notin> set SUPPORTED_EXTENSIONS")
    case True
    with Cons.IH[OF r, of w] show ?thesis by (simp add: Let_def)
  next
    case False
    with b have u: "upload_succeeds env org_id ?filepath"
      and blank: "strip (extract_text_from_file env ?filepath) = []"
      by (auto simp: blank_or_skipped_def Let_def)
    let ?w1 = "print (''Processing file: '' @ filename @ '' ('' @ ?ext @ '')'') w"
    from upload_succeeds_result[OF u, of ?w1] obtain w2 where
      up: "upload_file_to_org_blob env org_id ?filepath ?w1 = (Inr (basename ?filepath), w2)"
      by blast
    from Cons.IH[OF r, of "print (''Warning: No content extracted from '' @ filename) w2"]
      False up blank
    show ?thesis by (simp add: Let_def)
  qed
qed

end
